theory Spec2Isabelle
  imports Main "HOL-Library.Word"
begin

unbundle bit_operations_syntax

section \<open>Frames and flags (utp.h)\<close>

text \<open>
  A frame is the C struct \<^verbatim>\<open>utp_pack\<close> followed by its payload. The 16-bit size and the
  8-bit flags are machine words; the 16-byte checksum array is one 128-bit value. The two
  64-bit signed fields (sequence number and timestamp) are integers: the program only
  adds 1 to them, subtracts two of them and compares, and signed overflow has no defined
  result in C, so the arithmetic below is the arithmetic of the program wherever the
  64-bit result does not overflow. A window buffer is the list of its slots, slot 0 first.

  With natural alignment on a 64-bit target the flexible array \<^verbatim>\<open>msg\<close> starts at byte 41
  of the struct (the 2-byte size, 6 bytes of padding, two 8-byte fields, the flags byte and
  16 checksum bytes) and \<^verbatim>\<open>sizeof(struct utp_pack)\<close> is 48. A frame is allocated, sent and
  received with \<^verbatim>\<open>sizeof(struct utp_pack) + UTP_PAYLOAD\<close> bytes, so from \<^verbatim>\<open>msg\<close> to its end
  it has the \<^verbatim>\<open>UTP_PAYLOAD\<close> bytes of the payload and 7 more. The field \<open>msg\<close> is all of
  these bytes.
\<close>

type_synonym byte = "8 word"

record utp_pack =
  size_f :: "16 word"
  seq :: int
  time :: int
  flags :: "8 word"
  md5 :: "128 word"
  msg :: "byte list"

definition MSG :: "8 word" where "MSG = 0"
definition NAK :: "8 word" where "NAK = 1"
definition ACK :: "8 word" where "ACK = 2"
definition SYN :: "8 word" where "SYN = 4"
definition FIN :: "8 word" where "FIN = 8"
definition END :: "8 word" where "END = 16"
definition REQ :: "8 word" where "REQ = 32"

definition UTP_TEARDOWN_MAX :: int where "UTP_TEARDOWN_MAX = 16"
definition UTP_HANDSHAKE_SIZE :: int where "UTP_HANDSHAKE_SIZE = 16"
definition UTP_DEFAULT_TIMEOUT :: int where "UTP_DEFAULT_TIMEOUT = 60000"
definition BUFFER_SIZE :: int where "BUFFER_SIZE = 1024"

text \<open>Reading or writing outside an allocated block has no defined result in C; the
  model returns this fault instead.\<close>

datatype fault = OutOfBounds

text \<open>The bytes of a frame behind its payload: 48 - 41.\<close>

definition TAIL_BYTES :: nat where "TAIL_BYTES = 7"

section \<open>Flags (utp.c)\<close>

definition UTP_FLAG :: "utp_pack \<Rightarrow> 8 word \<Rightarrow> bool" where
  "UTP_FLAG frame option = ((flags frame AND option) = option)"

definition UTP_FLAG_EXACT :: "utp_pack \<Rightarrow> 8 word \<Rightarrow> bool" where
  "UTP_FLAG_EXACT frame option = (flags frame = option)"


text \<open>The shift left is stored back into the 8-bit variable, which drops the upper
  four bits, before the shift right.\<close>

definition UTP_TYPE :: "8 word \<Rightarrow> 8 word" where
  "UTP_TYPE fl = drop_bit 4 (push_bit 4 fl)"

section \<open>Sliding window utilities (main.c)\<close>


definition sequenceInSpan :: "int \<Rightarrow> int \<Rightarrow> int \<Rightarrow> bool" where
  "sequenceInSpan wsize sq offset = (let idx = sq - offset in idx \<ge> 0 \<and> idx < wsize)"

text \<open>\<^verbatim>\<open>memmove(dest, dest + fsize, (wsize - 1) * fsize)\<close>: the first \<open>wsize - 1\<close> slots
  receive the slots 1 to \<open>wsize - 1\<close>; nothing else is written.\<close>

definition slide :: "int \<Rightarrow> utp_pack list \<Rightarrow> utp_pack list" where
  "slide wsize dest = take (nat (wsize - 1)) (drop 1 dest) @ drop (nat (wsize - 1)) dest"

text \<open>A slot is live when it holds the frame whose sequence number the slot stands
  for, \<open>base + i\<close>; it is stale when the frame it holds is older than that.\<close>

definition slot_live :: "int \<Rightarrow> utp_pack list \<Rightarrow> nat \<Rightarrow> bool" where
  "slot_live base buf i = (seq (buf ! i) = base + int i)"

definition slot_stale :: "int \<Rightarrow> utp_pack list \<Rightarrow> nat \<Rightarrow> bool" where
  "slot_stale base buf i = (seq (buf ! i) < base + int i)"

definition no_future :: "int \<Rightarrow> utp_pack list \<Rightarrow> bool" where
  "no_future base buf = (\<forall>i < length buf. seq (buf ! i) \<le> base + int i)"

definition unused_beyond :: "int \<Rightarrow> int \<Rightarrow> utp_pack list \<Rightarrow> bool" where
  "unused_beyond base lst buf = (\<forall>i < length buf. lst - base < int i \<longrightarrow> slot_stale base buf i)"

text \<open>A cleared frame for the payload size \<open>p\<close>.\<close>

definition calloc_pack :: "nat \<Rightarrow> utp_pack" where
  "calloc_pack p =
     \<lparr>size_f = 0, seq = 0, time = 0, flags = 0, md5 = 0, msg = replicate (p + TAIL_BYTES) 0\<rparr>"

definition ex_pack :: "int \<Rightarrow> utp_pack" where
  "ex_pack n = (calloc_pack 2)\<lparr>seq := n\<rparr>"

section \<open>Negotiated parameters (utp.c)\<close>

text \<open>The three file-level variables of utp.c and their initial values.\<close>

record utp_params =
  UTP_WINDOW :: int
  UTP_PAYLOAD :: int
  UTP_TIMEOUT :: int

definition utp_params_init :: utp_params where
  "utp_params_init =
     \<lparr>UTP_WINDOW = 1, UTP_PAYLOAD = UTP_HANDSHAKE_SIZE, UTP_TIMEOUT = UTP_DEFAULT_TIMEOUT\<rparr>"

definition UTP_FORCE_WINDOW_SIZE :: "int \<Rightarrow> utp_params \<Rightarrow> utp_params" where
  "UTP_FORCE_WINDOW_SIZE sz g = g\<lparr>UTP_WINDOW := (if sz > 1 then sz else UTP_WINDOW g)\<rparr>"

definition UTP_FORCE_PAYLOAD_SIZE :: "int \<Rightarrow> utp_params \<Rightarrow> utp_params" where
  "UTP_FORCE_PAYLOAD_SIZE sz g = g\<lparr>UTP_PAYLOAD := (if sz > 1 then sz else UTP_PAYLOAD g)\<rparr>"

definition UTP_SET_WINDOW_SIZE :: "int \<Rightarrow> int \<Rightarrow> utp_params \<Rightarrow> utp_params" where
  "UTP_SET_WINDOW_SIZE recvSize sendSize g =
     UTP_FORCE_WINDOW_SIZE (if recvSize > sendSize then sendSize else recvSize) g"

definition UTP_SET_PAYLOAD_SIZE :: "int \<Rightarrow> int \<Rightarrow> utp_params \<Rightarrow> utp_params" where
  "UTP_SET_PAYLOAD_SIZE recvSize sendSize g =
     UTP_FORCE_PAYLOAD_SIZE (if recvSize > sendSize then sendSize else recvSize) g"

definition UTP_GET_WINDOW_SIZE :: "utp_params \<Rightarrow> int" where
  "UTP_GET_WINDOW_SIZE g = UTP_WINDOW g"

definition UTP_GET_PAYLOAD_SIZE :: "utp_params \<Rightarrow> int" where
  "UTP_GET_PAYLOAD_SIZE g = UTP_PAYLOAD g"

text \<open>\<^verbatim>\<open>sizeof(struct utp_pack)\<close> for the declaration in utp.h with natural alignment on a
  64-bit target: the 2-byte size, 6 bytes of padding, two 8-byte fields, the flags byte,
  16 checksum bytes, and trailing padding up to a multiple of 8.\<close>

definition SIZEOF_utp_pack :: int where "SIZEOF_utp_pack = 48"

definition UTP_GET_FRAME_SIZE :: "utp_params \<Rightarrow> int" where
  "UTP_GET_FRAME_SIZE g = SIZEOF_utp_pack + UTP_PAYLOAD g"

subsection \<open>The handshake's use of the setters\<close>

text \<open>Conversion of an \<^verbatim>\<open>int\<close> argument to the \<^verbatim>\<open>int16_t\<close> parameters of
  \<^verbatim>\<open>UTP_PACK_HANDSHAKE\<close> and to the 16-bit size field.\<close>

definition int16 :: "int \<Rightarrow> int" where
  "int16 x = sint (word_of_int x :: 16 word)"

text \<open>
  \<^verbatim>\<open>UTP_OPEN_RECV\<close>, "Set up parameters": the listener combines its own \<open>wsize\<close> and
  \<open>psize\<close> with the values of the received SYN. The SYN was packed by
  \<^verbatim>\<open>UTP_PACK_HANDSHAKE(frame, seq, SYN, psize, wsize)\<close>: its size field is the initiator's
  \<open>psize\<close> and its payload the decimal text of the initiator's \<open>wsize\<close>, both converted to
  16 bits; \<^verbatim>\<open>atoi\<close> reads the text back as the number that \<^verbatim>\<open>sprintf\<close> printed.
\<close>

definition listener_negotiate :: "int \<Rightarrow> int \<Rightarrow> int \<Rightarrow> int \<Rightarrow> utp_params \<Rightarrow> utp_params" where
  "listener_negotiate wsizeL psizeL wsizeI psizeI g =
     UTP_SET_PAYLOAD_SIZE psizeL (int16 psizeI)
       (UTP_SET_WINDOW_SIZE wsizeL (int16 wsizeI) g)"

text \<open>
  \<^verbatim>\<open>UTP_OPEN_SEND\<close> after the SYN|ACK: the initiator combines its own values with those of
  the SYN|ACK, which the listener packed from its already negotiated \<^verbatim>\<open>UTP_PAYLOAD\<close> and
  \<^verbatim>\<open>UTP_WINDOW\<close>.
\<close>

definition initiator_negotiate :: "int \<Rightarrow> int \<Rightarrow> utp_params \<Rightarrow> utp_params \<Rightarrow> utp_params" where
  "initiator_negotiate wsizeI psizeI gL g =
     UTP_SET_PAYLOAD_SIZE psizeI (int16 (UTP_PAYLOAD gL))
       (UTP_SET_WINDOW_SIZE wsizeI (int16 (UTP_WINDOW gL)) g)"

section \<open>Checksum wrappers (utp.c)\<close>

text \<open>
  \<^verbatim>\<open>MD5\<close> is OpenSSL's function, not part of this program. It is a parameter \<open>H\<close> of the
  model: \<open>H f\<close> is the digest of the \<^verbatim>\<open>UTP_GET_FRAME_SIZE()\<close> bytes that make up frame \<open>f\<close>.
\<close>

type_synonym digest = "utp_pack \<Rightarrow> 128 word"

definition UTP_MD5_PREPARE :: "128 word \<Rightarrow> 128 word" where
  "UTP_MD5_PREPARE m = 0"

definition UTP_MD5_ADD :: "digest \<Rightarrow> utp_pack \<Rightarrow> utp_pack" where
  "UTP_MD5_ADD H frame =
     (let frame1 = frame\<lparr>md5 := UTP_MD5_PREPARE (md5 frame)\<rparr>;
          m = H frame1
      in frame1\<lparr>md5 := m\<rparr>)"

text \<open>Returns the C result (1 or 0) and the frame as the call leaves it. The local
  array that receives the frame's checksum is cleared and then overwritten by the copy,
  so it is the checksum (\<open>rcv\<close>).\<close>

definition UTP_MD5_VERIFY :: "digest \<Rightarrow> utp_pack \<Rightarrow> int \<times> utp_pack" where
  "UTP_MD5_VERIFY H frame =
     (let rcv = md5 frame;
          frame1 = UTP_MD5_ADD H frame
      in (if rcv = md5 frame1 then 1 else 0, frame1))"

section \<open>Pack preparation (utp.c)\<close>

text \<open>The \<^verbatim>\<open>memset\<close> clears the \<^verbatim>\<open>UTP_PAYLOAD\<close> bytes of the payload; the bytes of the
  frame behind them stay as they are.\<close>

definition UTP_PACK_PROPERTIES ::
  "int \<Rightarrow> utp_pack \<Rightarrow> 16 word \<Rightarrow> int \<Rightarrow> 8 word \<Rightarrow> utp_pack" where
  "UTP_PACK_PROPERTIES payload frame sz sq fl =
     frame\<lparr>flags := fl, size_f := sz, seq := sq,
           msg := replicate (nat payload) 0 @ drop (nat payload) (msg frame)\<rparr>"

definition strlen :: "byte list \<Rightarrow> int" where
  "strlen s = int (length (takeWhile (\<lambda>c. c \<noteq> 0) s))"

definition UTP_PACK_MESSAGE ::
  "int \<Rightarrow> utp_pack \<Rightarrow> byte list \<Rightarrow> int \<Rightarrow> 8 word \<Rightarrow> utp_pack" where
  "UTP_PACK_MESSAGE payload frame stream sq fl =
     (let msgLength = strlen stream;
          overflow = msgLength > payload;
          psz = (if overflow then payload else msgLength);
          modflag = (if overflow then UTP_TYPE fl else END OR fl);
          frame1 = UTP_PACK_PROPERTIES payload frame (word_of_int psz) sq modflag
      in frame1\<lparr>msg := take (nat psz) stream @ drop (nat psz) (msg frame1)\<rparr>)"

section \<open>Message handling (utp.c)\<close>

text \<open>
  The outside of the program: the datagrams handed to \<^verbatim>\<open>sendto\<close> so far, the outcomes of
  the coming waits on the socket (no datagram within the timeout, or a datagram), and
  the reading of the microsecond clock. When the list of outcomes is used up, every
  further wait times out.
\<close>

datatype recv_outcome = Timeout | Datagram utp_pack

record world =
  wire :: "utp_pack list"
  rx :: "recv_outcome list"
  clock :: int

definition UTP_TIME :: "world \<Rightarrow> int" where
  "UTP_TIME w = clock w"


text \<open>The send without fault injection; the fault-injecting variant does the same
  when its error rate is 0, the default.\<close>

definition UTP_SEND :: "digest \<Rightarrow> utp_pack \<Rightarrow> world \<Rightarrow> utp_pack \<times> world" where
  "UTP_SEND H frame w =
     (let frame1 = frame\<lparr>time := UTP_TIME w\<rparr>;
          frame2 = UTP_MD5_ADD H frame1
      in (frame2, w\<lparr>wire := wire w @ [frame2]\<rparr>))"

definition UTP_RECV :: "digest \<Rightarrow> utp_pack \<Rightarrow> world \<Rightarrow> int \<times> utp_pack \<times> world" where
  "UTP_RECV H frame w =
     (case rx w of
        [] \<Rightarrow> (0, frame, w)
      | Timeout # r \<Rightarrow> (0, frame, w\<lparr>rx := r\<rparr>)
      | Datagram d # r \<Rightarrow>
          (let (v, frame1) = UTP_MD5_VERIFY H d in (v, frame1, w\<lparr>rx := r\<rparr>)))"

section \<open>Teardown (utp.c)\<close>

record utp_conn =
  seqSend :: int
  seqRecv :: int

function close_recv_loop ::
  "digest \<Rightarrow> utp_params \<Rightarrow> int \<Rightarrow> utp_pack \<Rightarrow> world \<Rightarrow> int \<times> utp_pack \<times> world" where
  "close_recv_loop H g countdown frame w =
     (if \<not> UTP_FLAG_EXACT frame ACK then
        (let frame1 = UTP_PACK_PROPERTIES (UTP_PAYLOAD g) frame 0 (seq frame) (FIN OR ACK);
             (frame2, w1) = UTP_SEND H frame1 w;
             (v, frame3, w2) = UTP_RECV H frame2 w1
         in if countdown < 0 then (0, frame3, w2)
            else close_recv_loop H g (countdown - 1) frame3 w2)
      else (1, frame, w))"
  by pat_completeness auto
termination
  by (relation "measure (\<lambda>(H, g, countdown, frame, w). nat (countdown + 1))") auto

definition UTP_CLOSE_RECV ::
  "digest \<Rightarrow> utp_params \<Rightarrow> utp_pack \<Rightarrow> world \<Rightarrow> int \<times> utp_pack \<times> world" where
  "UTP_CLOSE_RECV H g frame w =
     close_recv_loop H g UTP_TEARDOWN_MAX (calloc_pack (nat (UTP_PAYLOAD g))) w"

text \<open>First loop of \<^verbatim>\<open>UTP_CLOSE_SEND\<close>: \<open>Inl\<close> is the \<^verbatim>\<open>return 0\<close> inside the loop,
  \<open>Inr\<close> the exit through the loop condition.\<close>

function close_send_fin ::
  "digest \<Rightarrow> utp_params \<Rightarrow> int \<Rightarrow> utp_conn \<Rightarrow> utp_pack \<Rightarrow> world
     \<Rightarrow> (utp_conn \<times> utp_pack \<times> world) + (utp_conn \<times> utp_pack \<times> world)" where
  "close_send_fin H g countdown c frame w =
     (if \<not> UTP_FLAG_EXACT frame (FIN OR ACK) then
        (let frame1 = UTP_PACK_PROPERTIES (UTP_PAYLOAD g) frame 0 (seqSend c) FIN;
             c1 = c\<lparr>seqSend := seqSend c + 1\<rparr>;
             (frame2, w1) = UTP_SEND H frame1 w;
             (v, frame3, w2) = UTP_RECV H frame2 w1
         in if countdown < 0 then Inl (c1, frame3, w2)
            else close_send_fin H g (countdown - 1) c1 frame3 w2)
      else Inr (c, frame, w))"
  by pat_completeness auto
termination
  by (relation "measure (\<lambda>(H, g, countdown, c, frame, w). nat (countdown + 1))") auto

text \<open>The do-while loop that sends the final ACK.\<close>

function close_send_ack ::
  "digest \<Rightarrow> utp_params \<Rightarrow> int \<Rightarrow> utp_conn \<Rightarrow> utp_pack \<Rightarrow> world
     \<Rightarrow> int \<times> utp_conn \<times> utp_pack \<times> world" where
  "close_send_ack H g countdown c frame w =
     (let frame1 = UTP_PACK_PROPERTIES (UTP_PAYLOAD g) frame 0 (seqSend c) ACK;
          c1 = c\<lparr>seqSend := seqSend c + 1\<rparr>;
          (frame2, w1) = UTP_SEND H frame1 w
      in if countdown < 0 then (0, c1, frame2, w1)
         else (let (v, frame3, w2) = UTP_RECV H frame2 w1
               in if v \<noteq> 0 \<and> UTP_FLAG_EXACT frame3 (FIN OR ACK)
                  then close_send_ack H g (countdown - 1) c1 frame3 w2
                  else (1, c1, frame3, w2)))"
  by pat_completeness auto
termination
  by (relation "measure (\<lambda>(H, g, countdown, c, frame, w). nat (countdown + 1))") auto

definition UTP_CLOSE_SEND ::
  "digest \<Rightarrow> utp_params \<Rightarrow> utp_conn \<Rightarrow> utp_pack \<Rightarrow> world
     \<Rightarrow> int \<times> utp_conn \<times> utp_pack \<times> world" where
  "UTP_CLOSE_SEND H g c frame w =
     (case close_send_fin H g UTP_TEARDOWN_MAX c (calloc_pack (nat (UTP_PAYLOAD g))) w of
        Inl (c1, frame1, w1) \<Rightarrow> (0, c1, frame1, w1)
      | Inr (c1, frame1, w1) \<Rightarrow> close_send_ack H g UTP_TEARDOWN_MAX c1 frame1 w1)"

section \<open>Program state (main.c)\<close>

record utp_tracker =
  sendLast :: int
  recvLast :: int
  sendNext :: int
  recvNext :: int

record utp_window =
  send :: "utp_pack list"
  recv :: "utp_pack list"
  acks :: "utp_pack list"

text \<open>
  The file-level variables of main.c, the variables of utp.c (\<open>params\<close>), the local
  variables of \<^verbatim>\<open>eventHandler\<close> (the text buffers \<^verbatim>\<open>input\<close> and \<^verbatim>\<open>output\<close>, here
  \<open>input_buf\<close> and \<open>output_buf\<close>, their cursors and the frame counter), and the
  outside: the socket and clock (\<open>env\<close>), the lines waiting on standard input and the
  lines printed. The frame size \<open>fsize\<close> is the size of one list element and does not
  appear.
\<close>

record session =
  running :: int
  tdClean :: int
  wsize :: int
  psize :: int
  params :: utp_params
  buffer :: utp_window
  status :: utp_tracker
  conn :: utp_conn
  frame :: utp_pack
  input_buf :: "byte list"
  output_buf :: "byte list"
  inPos :: int
  outPos :: int
  frameCount :: int
  env :: world
  stdin :: "byte list list"
  printed :: "byte list list"

section \<open>Helper functions (main.c)\<close>

text \<open>
  \<^verbatim>\<open>getFrame\<close> adds \<open>index * fsize\<close> to a pointer of type \<^verbatim>\<open>struct utp_pack*\<close>, so the
  address moves by \<open>index * fsize * sizeof(struct utp_pack)\<close> bytes: that is the slot
  number \<open>index * sizeof(struct utp_pack)\<close>. The callers read or write the frame at the
  address at once; the result is the slot they access, or the fault when the slot is
  not in the buffer.
\<close>

definition getFrame :: "int \<Rightarrow> utp_pack list \<Rightarrow> fault + nat" where
  "getFrame index buf =
     (let slot = index * SIZEOF_utp_pack
      in if 0 \<le> slot \<and> slot < int (length buf) then Inr (nat slot) else Inl OutOfBounds)"

text \<open>\<^verbatim>\<open>insert\<close> copies the shared frame into the slot \<open>seq - offset\<close>; its pointer is a
  \<^verbatim>\<open>void*\<close>, which moves by bytes.\<close>

definition insert_frame :: "utp_pack list \<Rightarrow> utp_pack \<Rightarrow> int \<Rightarrow> int \<Rightarrow> fault + utp_pack list" where
  "insert_frame dest fr sq offset =
     (let position = sq - offset
      in if 0 \<le> position \<and> position < int (length dest)
         then Inr (dest[nat position := fr]) else Inl OutOfBounds)"

text \<open>\<^verbatim>\<open>memcpy(dest + off, src, n)\<close> for a destination block \<open>dest\<close> and the bytes \<open>src\<close>
  that the source object has from the source address on. A negative \<open>n\<close> is, converted
  to \<^verbatim>\<open>size_t\<close>, a count that no object has.\<close>

definition memcpy :: "byte list \<Rightarrow> int \<Rightarrow> byte list \<Rightarrow> int \<Rightarrow> fault + byte list" where
  "memcpy dest off src n =
     (if 0 \<le> off \<and> 0 \<le> n \<and> off + n \<le> int (length dest) \<and> n \<le> int (length src)
      then Inr (take (nat off) dest @ take (nat n) src @ drop (nat (off + n)) dest)
      else Inl OutOfBounds)"

text \<open>What \<^verbatim>\<open>printf("%s")\<close> prints from a buffer: the bytes before the first zero.\<close>

definition c_string :: "byte list \<Rightarrow> fault + byte list" where
  "c_string b = (if 0 \<in> set b then Inr (takeWhile (\<lambda>c. c \<noteq> 0) b) else Inl OutOfBounds)"

definition QUIT_MSG :: "byte list" where
  "QUIT_MSG = [81, 85, 73, 84, 10]"

text \<open>\<open>line\<close> is the text waiting on standard input, up to and including its newline;
  \<^verbatim>\<open>fgets\<close> takes at most \<open>BUFFER_SIZE - offset - 1\<close> bytes of it.\<close>

definition readInputWithQuit :: "byte list \<Rightarrow> int \<Rightarrow> byte list \<Rightarrow> bool \<times> byte list \<times> int" where
  "readInputWithQuit stream offset line =
     (let got = take (nat (BUFFER_SIZE - offset - 1)) line;
          stream1 = take (nat offset) stream @ got @ [0]
                      @ drop (nat offset + length got + 1) stream;
          quitRequest = (got = QUIT_MSG);
          offset1 = offset + int (length got) - 1
      in (quitRequest, stream1[nat offset1 := 0], offset1))"

section \<open>Sliding window, receive side (main.c)\<close>

text \<open>The length of the longest run of slots 0, 1, ... whose frames carry the
  sequence numbers \<open>b\<close>, \<open>b + 1\<close>, ...\<close>

fun contiguous_run :: "int \<Rightarrow> utp_pack list \<Rightarrow> nat" where
  "contiguous_run b [] = 0"
| "contiguous_run b (f # fs) = (if seq f = b then Suc (contiguous_run (b + 1) fs) else 0)"

lemma contiguous_run_take_drop:
  "contiguous_run b (take (Suc j) fs @ drop j fs) \<le> contiguous_run b fs"
proof (induction fs arbitrary: b j)
  case Nil
  then show ?case by simp
next
  case (Cons x xs)
  show ?case
  proof (cases j)
    case 0
    then show ?thesis by simp
  next
    case (Suc k)
    with Cons.IH [of "b + 1" k] show ?thesis by simp
  qed
qed

lemma contiguous_run_slide:
  assumes "seq f = b"
  shows "contiguous_run (b + 1) (slide W (f # fs)) \<le> contiguous_run (b + 1) fs"
proof (cases "nat (W - 1)")
  case 0
  with assms show ?thesis by (simp add: slide_def)
next
  case (Suc j)
  with contiguous_run_take_drop [of "b + 1" j fs] show ?thesis by (simp add: slide_def)
qed

text \<open>The body of the loop up to the slide: copy \<open>size\<close> bytes from the \<^verbatim>\<open>msg\<close> of the
  frame into the output buffer and, on END, print and clear it. The state is the buffer,
  its cursor and the lines printed so far. Neither \<open>size\<close> nor the room left in the
  output buffer is looked at before the copy. A copy of more bytes than the frame has
  behind \<^verbatim>\<open>msg\<close> would go on into the header of the next slot or, from the last slot,
  leave the buffer; frames are not laid out as bytes here, and such a copy has no result
  in the model.\<close>

definition deliver_frame ::
  "utp_pack \<Rightarrow> byte list \<times> int \<times> byte list list \<Rightarrow> fault + (byte list \<times> int \<times> byte list list)" where
  "deliver_frame f = (\<lambda>(out, offset, pr).
     (let msgSize = sint (size_f f)
      in case memcpy out offset (msg f) msgSize of
           Inl e \<Rightarrow> Inl e
         | Inr out1 \<Rightarrow>
             if UTP_FLAG f END then
               (case c_string out1 of
                  Inl e \<Rightarrow> Inl e
                | Inr l \<Rightarrow> Inr (replicate (nat BUFFER_SIZE) 0, 0, pr @ [l]))
             else Inr (out1, offset + msgSize, pr)))"

function processReceived :: "session \<Rightarrow> fault + session" where
  "processReceived s =
     (case recv (buffer s) of
        [] \<Rightarrow> Inl OutOfBounds
      | f # rest \<Rightarrow>
          if seq f - recvNext (status s) = 0 then
            (case deliver_frame f (output_buf s, outPos s, printed s) of
               Inl e \<Rightarrow> Inl e
             | Inr (out1, offset1, pr1) \<Rightarrow>
                 processReceived
                   (s\<lparr>output_buf := out1, outPos := offset1, printed := pr1,
                      buffer := (buffer s)\<lparr>recv := slide (wsize s) (recv (buffer s))\<rparr>,
                      status := (status s)\<lparr>recvNext := recvNext (status s) + 1\<rparr>\<rparr>))
          else Inr s)"
  by pat_completeness auto
termination
proof (relation "measure (\<lambda>s. contiguous_run (recvNext (status s)) (recv (buffer s)))")
  show "wf (measure (\<lambda>s. contiguous_run (recvNext (status s)) (recv (buffer s))))"
    by simp
next
  fix s :: session and f rest x2 out1 y offset1 pr1
  assume r: "recv (buffer s) = f # rest" and hit: "seq f - recvNext (status s) = 0"
  from hit have "seq f = recvNext (status s)" by simp
  from contiguous_run_slide [OF this, of "wsize s" rest]
  show "(s\<lparr>output_buf := out1, outPos := offset1, printed := pr1,
            buffer := (buffer s)\<lparr>recv := slide (wsize s) (recv (buffer s))\<rparr>,
            status := (status s)\<lparr>recvNext := recvNext (status s) + 1\<rparr>\<rparr>, s)
          \<in> measure (\<lambda>s. contiguous_run (recvNext (status s)) (recv (buffer s)))"
    using r hit by simp
qed

declare processReceived.simps [simp del]

section \<open>Sliding window, send side (main.c)\<close>

function slideWindow :: "session \<Rightarrow> fault + session" where
  "slideWindow s =
     (case acks (buffer s) of
        [] \<Rightarrow> Inl OutOfBounds
      | a # rest \<Rightarrow>
          if seq a - sendNext (status s) = 0 then
            slideWindow
              (s\<lparr>buffer := (buffer s)\<lparr>send := slide (wsize s) (send (buffer s)),
                                       acks := slide (wsize s) (acks (buffer s))\<rparr>,
                 status := (status s)\<lparr>sendNext := sendNext (status s) + 1\<rparr>,
                 frameCount := frameCount s - 1\<rparr>)
          else Inr s)"
  by pat_completeness auto
termination
proof (relation "measure (\<lambda>s. contiguous_run (sendNext (status s)) (acks (buffer s)))")
  show "wf (measure (\<lambda>s. contiguous_run (sendNext (status s)) (acks (buffer s))))"
    by simp
next
  fix s :: session and a rest
  assume r: "acks (buffer s) = a # rest" and hit: "seq a - sendNext (status s) = 0"
  from hit have "seq a = sendNext (status s)" by simp
  from contiguous_run_slide [OF this, of "wsize s" rest]
  show "(s\<lparr>buffer := (buffer s)\<lparr>send := slide (wsize s) (send (buffer s)),
                                    acks := slide (wsize s) (acks (buffer s))\<rparr>,
            status := (status s)\<lparr>sendNext := sendNext (status s) + 1\<rparr>,
            frameCount := frameCount s - 1\<rparr>, s)
          \<in> measure (\<lambda>s. contiguous_run (sendNext (status s)) (acks (buffer s)))"
    using r hit by simp
qed

declare slideWindow.simps [simp del]

text \<open>The two branches that consume the text just packed: move the rest of the input
  buffer down by one payload and clear what it leaves behind, or clear the buffer.\<close>

definition consume_input :: "byte list \<Rightarrow> int \<Rightarrow> int \<Rightarrow> byte list \<times> int" where
  "consume_input inp pos p =
     (if pos > p then
        (let n = nat (BUFFER_SIZE - p);
             moved = take n (drop (nat p) inp) @ drop n inp
         in (take (nat (pos - p)) moved @ replicate (nat p) 0 @ drop (nat pos) moved, pos - p))
      else (replicate (nat BUFFER_SIZE) 0, 0))"

function sendFrames :: "digest \<Rightarrow> session \<Rightarrow> fault + session" where
  "sendFrames H s =
     (if frameCount s < wsize s \<and> inPos s > 0 then
        (let frame1 = UTP_PACK_MESSAGE (UTP_PAYLOAD (params s)) (frame s) (input_buf s)
                        (seqSend (conn s)) MSG;
             conn1 = (conn s)\<lparr>seqSend := seqSend (conn s) + 1\<rparr>;
             (input_buf1, inPos1) = consume_input (input_buf s) (inPos s) (psize s);
             (frame2, env1) = UTP_SEND H frame1 (env s)
         in case insert_frame (send (buffer s)) frame2 (seq frame2) (sendNext (status s)) of
              Inl e \<Rightarrow> Inl e
            | Inr send1 \<Rightarrow>
                sendFrames H
                  (s\<lparr>frame := frame2, conn := conn1, input_buf := input_buf1, inPos := inPos1,
                     env := env1, buffer := (buffer s)\<lparr>send := send1\<rparr>,
                     status := (status s)\<lparr>sendLast := seq frame2\<rparr>,
                     frameCount := frameCount s + 1\<rparr>))
      else Inr s)"
  by pat_completeness auto
termination
  by (relation "measure (\<lambda>(H, s). nat (wsize s - frameCount s))") auto

declare sendFrames.simps [simp del]

section \<open>Event handler (main.c)\<close>

text \<open>The branches of the \<^verbatim>\<open>switch\<close> on the type of the received frame, which is in
  the shared frame.\<close>

definition case_NAK :: "digest \<Rightarrow> session \<Rightarrow> fault + session" where
  "case_NAK H s =
     (case getFrame (seq (frame s) - sendNext (status s)) (send (buffer s)) of
        Inl e \<Rightarrow> Inl e
      | Inr slot \<Rightarrow>
          (let (frame1, env1) = UTP_SEND H (send (buffer s) ! slot) (env s)
           in Inr (s\<lparr>buffer := (buffer s)\<lparr>send := (send (buffer s))[slot := frame1]\<rparr>,
                     env := env1\<rparr>)))"

definition case_MSG :: "digest \<Rightarrow> session \<Rightarrow> fault + session" where
  "case_MSG H s =
     (case (if sequenceInSpan (wsize s) (seq (frame s)) (recvNext (status s)) then
              (case insert_frame (recv (buffer s)) (frame s) (seq (frame s))
                      (recvNext (status s)) of
                 Inl e \<Rightarrow> Inl e
               | Inr recv1 \<Rightarrow>
                   processReceived
                     (s\<lparr>buffer := (buffer s)\<lparr>recv := recv1\<rparr>,
                        status := (if seq (frame s) > recvLast (status s)
                                   then (status s)\<lparr>recvLast := seq (frame s)\<rparr>
                                   else status s)\<rparr>))
            else Inr s) of
        Inl e \<Rightarrow> Inl e
      | Inr s1 \<Rightarrow>
          (let frame1 = UTP_PACK_PROPERTIES (UTP_PAYLOAD (params s1)) (frame s1) 0
                          (seq (frame s1)) ACK;
               (frame2, env1) = UTP_SEND H frame1 (env s1)
           in Inr (s1\<lparr>frame := frame2, env := env1\<rparr>)))"

definition case_ACK :: "digest \<Rightarrow> session \<Rightarrow> fault + session" where
  "case_ACK H s =
     (case (if sequenceInSpan (wsize s) (seq (frame s)) (sendNext (status s)) then
              (case insert_frame (acks (buffer s)) (frame s) (seq (frame s))
                      (sendNext (status s)) of
                 Inl e \<Rightarrow> Inl e
               | Inr acks1 \<Rightarrow> slideWindow (s\<lparr>buffer := (buffer s)\<lparr>acks := acks1\<rparr>\<rparr>))
            else Inr s) of
        Inl e \<Rightarrow> Inl e
      | Inr s1 \<Rightarrow> sendFrames H s1)"

definition case_FIN :: "digest \<Rightarrow> session \<Rightarrow> fault + session" where
  "case_FIN H s =
     (let (v, frame1, env1) = UTP_CLOSE_RECV H (params s) (frame s) (env s)
      in Inr (s\<lparr>running := 0, tdClean := v, frame := frame1, env := env1\<rparr>))"

text \<open>The branch for a line on standard input; what \<^verbatim>\<open>fgets\<close> did not take stays
  on standard input.\<close>

definition case_stdin :: "digest \<Rightarrow> session \<Rightarrow> byte list \<Rightarrow> byte list list \<Rightarrow> fault + session" where
  "case_stdin H s line rest =
     (let left = drop (nat (BUFFER_SIZE - inPos s - 1)) line;
          (quitRequest, input_buf1, inPos1) = readInputWithQuit (input_buf s) (inPos s) line;
          s1 = s\<lparr>input_buf := input_buf1, inPos := inPos1,
                 stdin := (if left = [] then rest else left # rest)\<rparr>
      in if quitRequest then
           (let (v, conn1, frame1, env1) = UTP_CLOSE_SEND H (params s1) (conn s1) (frame s1) (env s1)
            in Inr (s1\<lparr>running := 0, tdClean := v, conn := conn1, frame := frame1, env := env1\<rparr>))
         else sendFrames H s1)"

text \<open>One pass through the body of the loop of \<^verbatim>\<open>eventHandler\<close>, after \<^verbatim>\<open>select\<close>
  has returned.\<close>

definition eventHandler :: "digest \<Rightarrow> session \<Rightarrow> fault + session" where
  "eventHandler H s =
     (let (v, frame1, env1) = UTP_RECV H (frame s) (env s);
          s1 = s\<lparr>frame := frame1, env := env1\<rparr>
      in if v \<noteq> 0 then
           (let ty = UTP_TYPE (flags (frame s1))
            in if ty = NAK then case_NAK H s1
               else if ty = MSG then case_MSG H s1
               else if ty = ACK then case_ACK H s1
               else if ty = FIN then case_FIN H s1
               else Inr s1)
         else (case stdin s1 of
                 [] \<Rightarrow> Inr s1
               | line # rest \<Rightarrow> case_stdin H s1 line rest))"

text \<open>The ACK that the MSG branch packs and sends in answer to the frame \<open>d\<close>:
  size 0, the sequence number of \<open>d\<close>, flags ACK, a cleared payload, the current time
  and the checksum.\<close>

definition ack_for :: "digest \<Rightarrow> session \<Rightarrow> utp_pack \<Rightarrow> utp_pack" where
  "ack_for H s d =
     UTP_MD5_ADD H ((UTP_PACK_PROPERTIES (UTP_PAYLOAD (params s)) d 0 (seq d) ACK)
                      \<lparr>time := clock (env s)\<rparr>)"

section \<open>Automatic repeat request (main.c)\<close>







section \<open>Setup (main.c)\<close>

text \<open>
  The state in which \<^verbatim>\<open>main\<close> starts the three threads, for the parameters and the
  connection that the handshake left. The shared frame comes from \<^verbatim>\<open>malloc\<close> and has
  whatever content \<open>frame0\<close>; the window buffers and the text buffers of the event handler
  come from \<^verbatim>\<open>calloc\<close>.
\<close>

definition main_init ::
  "utp_params \<Rightarrow> utp_conn \<Rightarrow> utp_pack \<Rightarrow> world \<Rightarrow> byte list list \<Rightarrow> session" where
  "main_init g c frame0 w lines =
     (let ws = UTP_GET_WINDOW_SIZE g;
          ps = UTP_GET_PAYLOAD_SIZE g;
          zeros = replicate (nat ws) (calloc_pack (nat ps))
      in \<lparr>running = 1, tdClean = 0, wsize = ws, psize = ps, params = g,
          buffer = \<lparr>send = zeros, recv = zeros, acks = zeros\<rparr>,
          status = \<lparr>sendLast = 0, recvLast = 0, sendNext = seqSend c, recvNext = seqRecv c + 1\<rparr>,
          conn = c, frame = frame0,
          input_buf = replicate (nat BUFFER_SIZE) 0, output_buf = replicate (nat BUFFER_SIZE) 0,
          inPos = 0, outPos = 0, frameCount = 0,
          env = w, stdin = lines, printed = []\<rparr>)"

section \<open>What the receive side delivers\<close>

text \<open>
  The output buffer of the event handler is well formed when it has \<^verbatim>\<open>BUFFER_SIZE\<close>
  bytes, the cursor is inside it, and everything from the cursor on is zero, as after
  \<^verbatim>\<open>calloc\<close> or the \<^verbatim>\<open>memset\<close> that follows a print. The bytes before the cursor are the
  pending text.
\<close>

definition out_wf :: "byte list \<Rightarrow> int \<Rightarrow> bool" where
  "out_wf out offset =
     (length out = nat BUFFER_SIZE \<and> 0 \<le> offset \<and> offset \<le> BUFFER_SIZE
      \<and> drop (nat offset) out = replicate (nat BUFFER_SIZE - nat offset) 0)"

definition pending :: "byte list \<Rightarrow> int \<Rightarrow> byte list" where
  "pending out offset = take (nat offset) out"

text \<open>
  The delivery as the specification words it, over the frames of a run in order: append
  the first \<open>size\<close> bytes of each payload to the pending text; on a frame with END
  flush the pending text (the application sees it as \<^verbatim>\<open>printf\<close> prints it, up to its first
  zero byte) and start again from the empty text.
\<close>

fun deliver_spec :: "utp_pack list \<Rightarrow> byte list \<times> byte list list \<Rightarrow> byte list \<times> byte list list" where
  "deliver_spec [] (pend, flushed) = (pend, flushed)"
| "deliver_spec (f # fs) (pend, flushed) =
     (let p = pend @ take (nat (sint (size_f f))) (msg f)
      in if UTP_FLAG f END then deliver_spec fs ([], flushed @ [takeWhile (\<lambda>c. c \<noteq> 0) p])
         else deliver_spec fs (p, flushed))"

text \<open>The copies of a run stay inside the frames and the output buffer, and a flush
  finds a terminating zero.\<close>

fun run_fits :: "int \<Rightarrow> utp_pack list \<Rightarrow> bool" where
  "run_fits offset [] = True"
| "run_fits offset (f # fs) =
     (let n = sint (size_f f)
      in 0 \<le> n \<and> n \<le> int (length (msg f)) \<and> offset + n \<le> BUFFER_SIZE
         \<and> (UTP_FLAG f END \<longrightarrow> offset + n < BUFFER_SIZE)
         \<and> run_fits (if UTP_FLAG f END then 0 else offset + n) fs)"

section \<open>Observation points\<close>










section \<open>Example frames and states\<close>

definition finack_pack :: utp_pack where
  "finack_pack = (calloc_pack 16)\<lparr>flags := FIN OR ACK\<rparr>"

definition corrupt_ack :: utp_pack where
  "corrupt_ack = (calloc_pack 16)\<lparr>flags := ACK, md5 := 1\<rparr>"

definition world0 :: world where
  "world0 = \<lparr>wire = [], rx = [], clock = 0\<rparr>"

definition ex_params :: utp_params where
  "ex_params = \<lparr>UTP_WINDOW = 3, UTP_PAYLOAD = 2, UTP_TIMEOUT = 60000\<rparr>"

definition default_params :: utp_params where
  "default_params = \<lparr>UTP_WINDOW = 16, UTP_PAYLOAD = 32, UTP_TIMEOUT = 60000\<rparr>"

definition ex_conn :: utp_conn where
  "ex_conn = \<lparr>seqSend = 1000, seqRecv = 2000\<rparr>"

definition data_pack :: "int \<Rightarrow> 8 word \<Rightarrow> 16 word \<Rightarrow> byte list \<Rightarrow> utp_pack" where
  "data_pack sq fl n bytes = \<lparr>size_f = n, seq = sq, time = 0, flags = fl, md5 = 0, msg = bytes\<rparr>"

definition ex_session :: "utp_params \<Rightarrow> recv_outcome list \<Rightarrow> session" where
  "ex_session g outcomes =
     main_init g ex_conn (calloc_pack (nat (UTP_PAYLOAD g))) (world0\<lparr>rx := outcomes\<rparr>) []"

text \<open>Two frames in order in the receive window, "hi" and "!" with END.\<close>

definition ex_received :: session where
  "ex_received =
     (ex_session ex_params [])
       \<lparr>buffer := (buffer (ex_session ex_params []))
          \<lparr>recv := [data_pack 2001 MSG 2 [104, 105, 0, 0, 0, 0, 0, 0, 0],
                    data_pack 2002 END 1 [33, 0, 0, 0, 0, 0, 0, 0, 0],
                    calloc_pack 2]\<rparr>\<rparr>"

text \<open>The next expected frame with the size field \<^verbatim>\<open>0xFFFF\<close>, which is -1.\<close>

definition ex_negative_size :: session where
  "ex_negative_size =
     (ex_session ex_params [])
       \<lparr>buffer := (buffer (ex_session ex_params []))
          \<lparr>recv := [data_pack 2001 MSG 65535 [104, 105, 0, 0, 0, 0, 0, 0, 0],
                    calloc_pack 2, calloc_pack 2]\<rparr>\<rparr>"

text \<open>
  The default parameters after 32 full frames without END, as a sender packs them from
  text that was typed while its window was full: the 1024 bytes of the output buffer are
  pending text, and the next expected frame is in slot 0 with 32 bytes more.
\<close>

definition ex_long_text :: session where
  "ex_long_text =
     (ex_session default_params [])
       \<lparr>buffer := (buffer (ex_session default_params []))
          \<lparr>recv := data_pack 2033 MSG 32 (replicate 32 65 @ replicate 7 0)
                    # replicate 15 (calloc_pack 32)\<rparr>,
        status := \<lparr>sendLast = 0, recvLast = 2033, sendNext = 1000, recvNext = 2033\<rparr>,
        output_buf := replicate 1024 65, outPos := 1024\<rparr>"




section \<open>Properties of the window utilities\<close>

lemma slide_length: "length buf = nat W \<Longrightarrow> 1 \<le> W \<Longrightarrow> length (slide W buf) = nat W"
  by (auto simp: slide_def)

lemma slide_nth_low:
  assumes "length buf = nat W" "1 \<le> W" "i < nat (W - 1)"
  shows "slide W buf ! i = buf ! Suc i"
  using assms by (simp add: slide_def nth_append)

lemma slide_nth_top:
  assumes "length buf = nat W" "1 \<le> W"
  shows "slide W buf ! nat (W - 1) = buf ! nat (W - 1)"
proof -
  have len: "length (take (nat (W - 1)) (drop 1 buf)) = nat (W - 1)"
    using assms by auto
  have "nat (W - 1) < length buf"
    using assms by auto
  then have "hd (drop (nat (W - 1)) buf) = buf ! nat (W - 1)"
    by (rule hd_drop_conv_nth)
  moreover have "drop (nat (W - 1)) buf \<noteq> []"
    using assms by auto
  ultimately have "drop (nat (W - 1)) buf ! 0 = buf ! nat (W - 1)"
    by (simp add: hd_conv_nth)
  with len show ?thesis
    by (simp add: slide_def nth_append)
qed

lemma no_futureD: "no_future base buf \<Longrightarrow> i < length buf \<Longrightarrow> seq (buf ! i) \<le> base + int i"
  unfolding no_future_def by blast

lemma unused_beyondD:
  "unused_beyond base lst buf \<Longrightarrow> i < length buf \<Longrightarrow> lst - base < int i
     \<Longrightarrow> seq (buf ! i) < base + int i"
  unfolding unused_beyond_def slot_stale_def by blast

text \<open>
  Claim C8. For a window buffer of capacity \<open>W\<close>, \<open>slide\<close> moves the contents of slot
  \<open>i + 1\<close> into slot \<open>i\<close> for every \<open>i\<close> from 0 to \<open>W - 2\<close>, so the old slot 0 is
  discarded. Slot \<open>W - 1\<close> is not written: it keeps its old frame, which after the base has
  advanced by one is older than the sequence number the slot stands for, so the slot
  holds no live frame. Stale slots beyond \<open>last - base\<close> stay stale.
\<close>

theorem slide_shifts_left:
  assumes "length buf = nat W" "1 \<le> W" "no_future base buf" "unused_beyond base lst buf"
  shows "length (slide W buf) = nat W
       \<and> (\<forall>i < nat (W - 1). slide W buf ! i = buf ! Suc i)
       \<and> slide W buf ! nat (W - 1) = buf ! nat (W - 1)
       \<and> \<not> slot_live (base + 1) (slide W buf) (nat (W - 1))
       \<and> no_future (base + 1) (slide W buf)
       \<and> unused_beyond (base + 1) lst (slide W buf)"
proof -
  let ?n = "nat (W - 1)"
  have len: "length (slide W buf) = nat W"
    using assms(1,2) by (rule slide_length)
  have low: "\<forall>i < ?n. slide W buf ! i = buf ! Suc i"
    using assms(1,2) by (simp add: slide_nth_low)
  have top: "slide W buf ! ?n = buf ! ?n"
    using assms(1,2) by (rule slide_nth_top)
  have n_lt: "?n < length buf" and n_eq: "Suc ?n = length buf"
    using assms(1,2) by auto
  have old_top: "seq (buf ! ?n) \<le> base + int ?n"
    using assms(3) n_lt by (rule no_futureD)
  have stale_top: "seq (slide W buf ! ?n) < base + 1 + int ?n"
    using top old_top by simp
  have nf: "no_future (base + 1) (slide W buf)"
    unfolding no_future_def
  proof (intro allI impI)
    fix i assume "i < length (slide W buf)"
    then have i: "i < length buf" using len assms(1) by simp
    show "seq (slide W buf ! i) \<le> base + 1 + int i"
    proof (cases "i < ?n")
      case True
      then have "Suc i < length buf" using n_eq by simp
      then have "seq (buf ! Suc i) \<le> base + int (Suc i)"
        using assms(3) by (rule no_futureD [rotated])
      with True low show ?thesis by simp
    next
      case False
      then have "i = ?n" using i n_eq by simp
      with stale_top show ?thesis by simp
    qed
  qed
  have ub: "unused_beyond (base + 1) lst (slide W buf)"
    unfolding unused_beyond_def slot_stale_def
  proof (intro allI impI)
    fix i assume "i < length (slide W buf)" and far: "lst - (base + 1) < int i"
    then have i: "i < length buf" using len assms(1) by simp
    show "seq (slide W buf ! i) < base + 1 + int i"
    proof (cases "i < ?n")
      case True
      then have "Suc i < length buf" using n_eq by simp
      moreover have "lst - base < int (Suc i)" using far by simp
      ultimately have "seq (buf ! Suc i) < base + int (Suc i)"
        using assms(4) by (rule unused_beyondD [rotated])
      with True low show ?thesis by simp
    next
      case False
      then have "i = ?n" using i n_eq by simp
      with stale_top show ?thesis by simp
    qed
  qed
  from stale_top have "\<not> slot_live (base + 1) (slide W buf) ?n"
    by (simp add: slot_live_def)
  with len low top nf ub show ?thesis by blast
qed

theorem slide_shifts_left_witness:
  "length [ex_pack 5, ex_pack 6, ex_pack 0] = nat 3 \<and> (1::int) \<le> 3
   \<and> no_future 5 [ex_pack 5, ex_pack 6, ex_pack 0]
   \<and> unused_beyond 5 6 [ex_pack 5, ex_pack 6, ex_pack 0]
   \<and> slide 3 [ex_pack 5, ex_pack 6, ex_pack 0] = [ex_pack 6, ex_pack 0, ex_pack 0]
   \<and> \<not> slot_live (5 + 1) (slide 3 [ex_pack 5, ex_pack 6, ex_pack 0]) (nat (3 - 1))
   \<and> unused_beyond (5 + 1) 6 (slide 3 [ex_pack 5, ex_pack 6, ex_pack 0])"
proof -
  have h1: "length [ex_pack 5, ex_pack 6, ex_pack 0] = nat 3" by simp
  have h2: "(1::int) \<le> 3" by simp
  have h3: "no_future 5 [ex_pack 5, ex_pack 6, ex_pack 0]"
    by (simp add: no_future_def ex_pack_def calloc_pack_def less_Suc_eq)
  have h4: "unused_beyond 5 6 [ex_pack 5, ex_pack 6, ex_pack 0]"
    by (simp add: unused_beyond_def slot_stale_def ex_pack_def calloc_pack_def less_Suc_eq)
  have sl: "slide 3 [ex_pack 5, ex_pack 6, ex_pack 0] = [ex_pack 6, ex_pack 0, ex_pack 0]"
    by (simp add: slide_def)
  from slide_shifts_left [OF h1 h2 h3 h4] h1 h2 h3 h4 sl show ?thesis by simp
qed

section \<open>Properties of the checksum wrappers\<close>

text \<open>
  Claim C10. \<^verbatim>\<open>UTP_MD5_VERIFY\<close> is not read-only: it leaves in the frame's checksum field
  the digest recomputed over the frame with the checksum field cleared, leaves every
  other field as it was, and returns 1 exactly when the checksum it found in the frame
  equals the recomputed one (and 0 otherwise).
\<close>

theorem UTP_MD5_VERIFY_overwrites:
  "snd (UTP_MD5_VERIFY H f) = f\<lparr>md5 := H (f\<lparr>md5 := 0\<rparr>)\<rparr>
   \<and> size_f (snd (UTP_MD5_VERIFY H f)) = size_f f
   \<and> seq (snd (UTP_MD5_VERIFY H f)) = seq f
   \<and> time (snd (UTP_MD5_VERIFY H f)) = time f
   \<and> flags (snd (UTP_MD5_VERIFY H f)) = flags f
   \<and> msg (snd (UTP_MD5_VERIFY H f)) = msg f
   \<and> fst (UTP_MD5_VERIFY H f) = (if md5 f = H (f\<lparr>md5 := 0\<rparr>) then 1 else 0)"
  by (simp add: UTP_MD5_VERIFY_def UTP_MD5_ADD_def UTP_MD5_PREPARE_def Let_def)

text \<open>A frame that \<^verbatim>\<open>UTP_MD5_ADD\<close> has signed verifies, whatever the digest function.\<close>

lemma UTP_MD5_roundtrip: "fst (UTP_MD5_VERIFY H (UTP_MD5_ADD H f)) = 1"
  by (simp add: UTP_MD5_VERIFY_def UTP_MD5_ADD_def UTP_MD5_PREPARE_def Let_def)

section \<open>Properties of the negotiation\<close>

lemma int16_id: "- 32768 \<le> x \<Longrightarrow> x \<le> 32767 \<Longrightarrow> int16 x = x"
  unfolding int16_def by (simp add: sint_sbintrunc' signed_take_bit_int_eq_self)

lemma initiator_window:
  "UTP_WINDOW (initiator_negotiate wI pI gL utp_params_init)
     = (if min wI (int16 (UTP_WINDOW gL)) > 1 then min wI (int16 (UTP_WINDOW gL)) else 1)"
  by (simp add: initiator_negotiate_def UTP_SET_PAYLOAD_SIZE_def UTP_SET_WINDOW_SIZE_def
      UTP_FORCE_PAYLOAD_SIZE_def UTP_FORCE_WINDOW_SIZE_def utp_params_init_def min_def)

lemma initiator_payload:
  "UTP_PAYLOAD (initiator_negotiate wI pI gL utp_params_init)
     = (if min pI (int16 (UTP_PAYLOAD gL)) > 1 then min pI (int16 (UTP_PAYLOAD gL))
        else UTP_HANDSHAKE_SIZE)"
  by (simp add: initiator_negotiate_def UTP_SET_PAYLOAD_SIZE_def UTP_SET_WINDOW_SIZE_def
      UTP_FORCE_PAYLOAD_SIZE_def UTP_FORCE_WINDOW_SIZE_def utp_params_init_def min_def)

text \<open>
  Claim C3, as amended. With the initiator's proposals inside the 16-bit range of the
  handshake fields, both peers end the handshake with the minimum of the two proposed
  window sizes when that minimum is greater than 1, and with window size 1 otherwise;
  they end with the minimum of the two proposed payload sizes when that minimum is
  greater than 1. When it is not, the listener keeps the handshake payload size 16 and
  the initiator takes the minimum of its own proposal and 16, or 16 if that is not
  greater than 1.
\<close>

theorem negotiation_min_above_one:
  assumes "- 32768 \<le> wI" "wI \<le> 32767" "- 32768 \<le> pI" "pI \<le> 32767"
  shows "UTP_WINDOW (listener_negotiate wL pL wI pI utp_params_init)
           = (if min wL wI > 1 then min wL wI else 1)
       \<and> UTP_WINDOW (initiator_negotiate wI pI (listener_negotiate wL pL wI pI utp_params_init)
            utp_params_init)
           = (if min wL wI > 1 then min wL wI else 1)
       \<and> UTP_PAYLOAD (listener_negotiate wL pL wI pI utp_params_init)
           = (if min pL pI > 1 then min pL pI else UTP_HANDSHAKE_SIZE)
       \<and> UTP_PAYLOAD (initiator_negotiate wI pI (listener_negotiate wL pL wI pI utp_params_init)
            utp_params_init)
           = (if min pL pI > 1 then min pL pI
              else if min pI UTP_HANDSHAKE_SIZE > 1 then min pI UTP_HANDSHAKE_SIZE
              else UTP_HANDSHAKE_SIZE)"
proof -
  let ?gL = "listener_negotiate wL pL wI pI utp_params_init"
  have wI: "int16 wI = wI" and pI: "int16 pI = pI"
    using assms by (simp_all add: int16_id)
  have wL_eq: "UTP_WINDOW ?gL = (if min wL wI > 1 then min wL wI else 1)"
    by (simp add: listener_negotiate_def UTP_SET_PAYLOAD_SIZE_def UTP_SET_WINDOW_SIZE_def
        UTP_FORCE_PAYLOAD_SIZE_def UTP_FORCE_WINDOW_SIZE_def utp_params_init_def wI min_def)
  have pL_eq: "UTP_PAYLOAD ?gL = (if min pL pI > 1 then min pL pI else UTP_HANDSHAKE_SIZE)"
    by (simp add: listener_negotiate_def UTP_SET_PAYLOAD_SIZE_def UTP_SET_WINDOW_SIZE_def
        UTP_FORCE_PAYLOAD_SIZE_def UTP_FORCE_WINDOW_SIZE_def utp_params_init_def pI min_def)
  have "- 32768 \<le> UTP_WINDOW ?gL" "UTP_WINDOW ?gL \<le> 32767"
    using assms wL_eq by (auto simp: min_def split: if_splits)
  then have w16: "int16 (UTP_WINDOW ?gL) = UTP_WINDOW ?gL"
    by (rule int16_id)
  have "- 32768 \<le> UTP_PAYLOAD ?gL" "UTP_PAYLOAD ?gL \<le> 32767"
    using assms pL_eq by (auto simp: min_def UTP_HANDSHAKE_SIZE_def split: if_splits)
  then have p16: "int16 (UTP_PAYLOAD ?gL) = UTP_PAYLOAD ?gL"
    by (rule int16_id)
  have "UTP_WINDOW (initiator_negotiate wI pI ?gL utp_params_init)
          = (if min wI (UTP_WINDOW ?gL) > 1 then min wI (UTP_WINDOW ?gL) else 1)"
    by (simp only: initiator_window w16)
  then have wI_eq: "UTP_WINDOW (initiator_negotiate wI pI ?gL utp_params_init)
                 = (if min wL wI > 1 then min wL wI else 1)"
    by (simp only: wL_eq) (simp add: min_def)
  have "UTP_PAYLOAD (initiator_negotiate wI pI ?gL utp_params_init)
          = (if min pI (UTP_PAYLOAD ?gL) > 1 then min pI (UTP_PAYLOAD ?gL)
             else UTP_HANDSHAKE_SIZE)"
    by (simp only: initiator_payload p16)
  then have pI_eq: "UTP_PAYLOAD (initiator_negotiate wI pI ?gL utp_params_init)
                 = (if min pL pI > 1 then min pL pI
                    else if min pI UTP_HANDSHAKE_SIZE > 1 then min pI UTP_HANDSHAKE_SIZE
                    else UTP_HANDSHAKE_SIZE)"
    by (simp only: pL_eq) (simp add: min_def UTP_HANDSHAKE_SIZE_def)
  from wL_eq wI_eq pL_eq pI_eq show ?thesis by blast
qed

theorem negotiation_min_above_one_witness:
  "UTP_WINDOW (listener_negotiate 16 32 8 64 utp_params_init) = 8
   \<and> UTP_WINDOW (initiator_negotiate 8 64 (listener_negotiate 16 32 8 64 utp_params_init)
        utp_params_init) = 8
   \<and> UTP_PAYLOAD (listener_negotiate 16 32 8 64 utp_params_init) = 32
   \<and> UTP_PAYLOAD (initiator_negotiate 8 64 (listener_negotiate 16 32 8 64 utp_params_init)
        utp_params_init) = 32"
  using negotiation_min_above_one [of 8 64 16 32] by simp

text \<open>
  Claim C3 as stated fails: with proposed payload sizes 32 and 1 the listener's payload
  size stays 16, and with proposed window sizes 16 and 0 its window size stays 1.
\<close>

theorem negotiation_counterexample:
  "UTP_PAYLOAD (listener_negotiate 16 32 16 1 utp_params_init) \<noteq> min 32 1
   \<and> UTP_WINDOW (listener_negotiate 16 32 0 32 utp_params_init) \<noteq> min 16 0"
  by (simp add: listener_negotiate_def UTP_SET_PAYLOAD_SIZE_def UTP_SET_WINDOW_SIZE_def
      UTP_FORCE_PAYLOAD_SIZE_def UTP_FORCE_WINDOW_SIZE_def utp_params_init_def int16_def
      UTP_HANDSHAKE_SIZE_def)

section \<open>Properties of the teardown\<close>

text \<open>
  Claim C6 at a failing input. A datagram \<open>d\<close> with the flags of an ACK whose checksum
  does not verify makes \<^verbatim>\<open>UTP_RECV\<close> return 0, as a timeout does, but the frame buffer
  then holds \<open>d\<close> where a timeout leaves it untouched, and \<^verbatim>\<open>UTP_CLOSE_RECV\<close>, which
  does not look at the result of \<^verbatim>\<open>UTP_RECV\<close>, returns 1 after one FIN|ACK where on a
  timeout it goes on to send 18 and returns 0.
\<close>

theorem close_recv_accepts_unverified_ack:
  assumes "flags d = ACK" "md5 d \<noteq> H (d\<lparr>md5 := 0\<rparr>)"
  shows "fst (UTP_RECV H f (w\<lparr>rx := [Datagram d]\<rparr>)) = 0
       \<and> fst (UTP_RECV H f (w\<lparr>rx := [Timeout]\<rparr>)) = 0
       \<and> fst (snd (UTP_RECV H f (w\<lparr>rx := [Timeout]\<rparr>))) = f
       \<and> fst (snd (UTP_RECV H f (w\<lparr>rx := [Datagram d]\<rparr>))) = d\<lparr>md5 := H (d\<lparr>md5 := 0\<rparr>)\<rparr>
       \<and> fst (UTP_CLOSE_RECV H g f (w\<lparr>rx := [Datagram d]\<rparr>)) = 1
       \<and> length (wire (snd (snd (UTP_CLOSE_RECV H g f (w\<lparr>rx := [Datagram d]\<rparr>))))) = length (wire w) + 1
       \<and> fst (UTP_CLOSE_RECV H g f (w\<lparr>rx := [Timeout]\<rparr>)) = 0
       \<and> length (wire (snd (snd (UTP_CLOSE_RECV H g f (w\<lparr>rx := [Timeout]\<rparr>))))) = length (wire w) + 18"
  using assms
  by (simp add: UTP_CLOSE_RECV_def UTP_TEARDOWN_MAX_def
     calloc_pack_def UTP_FLAG_EXACT_def FIN_def ACK_def UTP_PACK_PROPERTIES_def
     UTP_SEND_def UTP_RECV_def UTP_MD5_ADD_def UTP_MD5_VERIFY_def UTP_MD5_PREPARE_def UTP_TIME_def Let_def)

theorem close_recv_accepts_unverified_ack_witness:
  "fst (UTP_RECV (\<lambda>_. 0) (calloc_pack 16) (world0\<lparr>rx := [Datagram corrupt_ack]\<rparr>)) = 0
   \<and> fst (UTP_CLOSE_RECV (\<lambda>_. 0) utp_params_init (calloc_pack 16)
        (world0\<lparr>rx := [Datagram corrupt_ack]\<rparr>)) = 1
   \<and> fst (UTP_CLOSE_RECV (\<lambda>_. 0) utp_params_init (calloc_pack 16)
        (world0\<lparr>rx := [Timeout]\<rparr>)) = 0"
proof -
  have h1: "flags corrupt_ack = ACK"
    by (simp add: corrupt_ack_def)
  have h2: "md5 corrupt_ack \<noteq> (\<lambda>_. 0) (corrupt_ack\<lparr>md5 := 0\<rparr>)"
    by (simp add: corrupt_ack_def)
  from close_recv_accepts_unverified_ack [OF h1 h2, of "calloc_pack 16" world0 utp_params_init]
  show ?thesis by simp
qed

text \<open>
  Claim C9 at a failing input. No FIN|ACK arrives in the first 16 rounds, one arrives in
  round 17, and nothing after it: \<^verbatim>\<open>UTP_CLOSE_SEND\<close> returns 1, having sent 17 FIN
  frames and one ACK. With 18 rounds without an answer it returns 0 after 18 FIN frames.
\<close>

theorem close_send_budget_is_18_rounds:
  "fst (UTP_CLOSE_SEND H utp_params_init c f
      (world0\<lparr>rx := [Timeout, Timeout, Timeout, Timeout, Timeout, Timeout, Timeout, Timeout,
                     Timeout, Timeout, Timeout, Timeout, Timeout, Timeout, Timeout, Timeout,
                     Datagram finack_pack]\<rparr>)) = 1
   \<and> map flags (wire (snd (snd (snd (UTP_CLOSE_SEND H utp_params_init c f
      (world0\<lparr>rx := [Timeout, Timeout, Timeout, Timeout, Timeout, Timeout, Timeout, Timeout,
                     Timeout, Timeout, Timeout, Timeout, Timeout, Timeout, Timeout, Timeout,
                     Datagram finack_pack]\<rparr>))))))
       = replicate 17 FIN @ [ACK]
   \<and> fst (UTP_CLOSE_SEND H utp_params_init c f world0) = 0
   \<and> map flags (wire (snd (snd (snd (UTP_CLOSE_SEND H utp_params_init c f world0)))))
       = replicate 18 FIN"
  by (simp add: UTP_CLOSE_SEND_def UTP_TEARDOWN_MAX_def utp_params_init_def UTP_HANDSHAKE_SIZE_def
     calloc_pack_def finack_pack_def UTP_FLAG_EXACT_def FIN_def ACK_def UTP_PACK_PROPERTIES_def
     UTP_SEND_def UTP_RECV_def UTP_MD5_ADD_def UTP_MD5_VERIFY_def UTP_MD5_PREPARE_def UTP_TIME_def
     world0_def Let_def)
    (simp add: numeral_eq_Suc)

section \<open>Properties of the receive side\<close>

lemma takeWhile_zero_tail:
  "takeWhile (\<lambda>c. c \<noteq> 0) (xs @ replicate m (0::byte)) = takeWhile (\<lambda>c. c \<noteq> 0) xs"
proof (induction xs)
  case Nil
  then show ?case by (cases m) simp_all
next
  case (Cons a xs)
  then show ?case by simp
qed

lemma memcpy_Inr:
  assumes "memcpy out offset src n = Inr out1" and "out_wf out offset"
  shows "0 \<le> n" and "n \<le> int (length src)" and "offset + n \<le> BUFFER_SIZE"
    and "out1 = take (nat offset) out @ take (nat n) src @ drop (nat (offset + n)) out"
    and "length out1 = nat BUFFER_SIZE"
    and "take (nat (offset + n)) out1 = take (nat offset) out @ take (nat n) src"
    and "drop (nat (offset + n)) out1 = replicate (nat BUFFER_SIZE - nat (offset + n)) 0"
proof -
  from assms have b: "0 \<le> offset" "0 \<le> n" "offset + n \<le> int (length out)" "n \<le> int (length src)"
    and o1: "out1 = take (nat offset) out @ take (nat n) src @ drop (nat (offset + n)) out"
    by (auto simp: memcpy_def split: if_splits)
  from assms(2) have len: "length out = nat BUFFER_SIZE"
    and tail: "drop (nat offset) out = replicate (nat BUFFER_SIZE - nat offset) 0"
    by (simp_all add: out_wf_def)
  show "0 \<le> n" "n \<le> int (length src)" by fact+
  show "offset + n \<le> BUFFER_SIZE" using b len by (simp add: BUFFER_SIZE_def)
  show "out1 = take (nat offset) out @ take (nat n) src @ drop (nat (offset + n)) out" by fact
  have l1: "length (take (nat offset) out) = nat offset" using b by simp
  have l2: "length (take (nat n) src) = nat n" using b by simp
  define P where "P = take (nat offset) out @ take (nat n) src"
  have l12: "length P = nat (offset + n)"
    unfolding P_def using l1 l2 b by (simp add: nat_add_distrib)
  show "length out1 = nat BUFFER_SIZE"
    unfolding o1 using b len l1 l2 by (simp add: nat_add_distrib BUFFER_SIZE_def)
  have o1': "out1 = P @ drop (nat (offset + n)) out"
    using o1 by (simp add: P_def)
  have "take (length P) out1 = P"
    unfolding o1' by simp
  then show "take (nat (offset + n)) out1 = take (nat offset) out @ take (nat n) src"
    unfolding l12 by (simp add: P_def)
  have "drop (length P) out1 = drop (nat (offset + n)) out"
    unfolding o1' by simp
  then have "drop (nat (offset + n)) out1 = drop (nat (offset + n)) out"
    unfolding l12 .
  also have "\<dots> = drop (nat n) (drop (nat offset) out)"
    using b by (simp add: nat_add_distrib add.commute)
  also have "\<dots> = replicate (nat BUFFER_SIZE - nat (offset + n)) 0"
    unfolding tail using b by (simp add: nat_add_distrib)
  finally show "drop (nat (offset + n)) out1 = replicate (nat BUFFER_SIZE - nat (offset + n)) 0" .
qed

lemma deliver_frame_spec:
  assumes "deliver_frame f (out, offset, pr) = Inr (out1, offset1, pr1)" and "out_wf out offset"
  shows "out_wf out1 offset1"
    and "(pending out1 offset1, pr1) =
           (let p = pending out offset @ take (nat (sint (size_f f))) (msg f)
            in if UTP_FLAG f END then ([], pr @ [takeWhile (\<lambda>c. c \<noteq> 0) p]) else (p, pr))"
proof -
  let ?n = "sint (size_f f)"
  from assms(1) obtain o2 where m: "memcpy out offset (msg f) ?n = Inr o2"
    by (auto simp: deliver_frame_def Let_def split: sum.splits)
  note M = memcpy_Inr [OF m assms(2)]
  from assms(2) have off: "0 \<le> offset" by (simp add: out_wf_def)
  show "out_wf out1 offset1"
  proof (cases "UTP_FLAG f END")
    case True
    with assms(1) m have "out1 = replicate (nat BUFFER_SIZE) 0" "offset1 = 0"
      by (auto simp: deliver_frame_def Let_def split: sum.splits)
    then show ?thesis by (simp add: out_wf_def BUFFER_SIZE_def)
  next
    case False
    with assms(1) m have "out1 = o2" "offset1 = offset + ?n"
      by (auto simp: deliver_frame_def Let_def split: sum.splits)
    with M(1,3,5,7) off show ?thesis by (simp add: out_wf_def)
  qed
  show "(pending out1 offset1, pr1) =
           (let p = pending out offset @ take (nat (sint (size_f f))) (msg f)
            in if UTP_FLAG f END then ([], pr @ [takeWhile (\<lambda>c. c \<noteq> 0) p]) else (p, pr))"
  proof (cases "UTP_FLAG f END")
    case True
    with assms(1) m obtain l where c: "c_string o2 = Inr l"
      and r: "out1 = replicate (nat BUFFER_SIZE) 0" "offset1 = 0" "pr1 = pr @ [l]"
      by (auto simp: deliver_frame_def Let_def split: sum.splits)
    from c have "l = takeWhile (\<lambda>c. c \<noteq> 0) o2"
      by (auto simp: c_string_def split: if_splits)
    also have "o2 = take (nat (offset + ?n)) o2 @ drop (nat (offset + ?n)) o2"
      by simp
    also have "\<dots> = (take (nat offset) out @ take (nat ?n) (msg f))
                      @ replicate (nat BUFFER_SIZE - nat (offset + ?n)) 0"
      using M(6,7) by simp
    finally have "l = takeWhile (\<lambda>c. c \<noteq> 0) (take (nat offset) out @ take (nat ?n) (msg f))"
      by (simp only: takeWhile_zero_tail)
    with True r show ?thesis by (simp add: pending_def Let_def)
  next
    case False
    with assms(1) m have "out1 = o2" "offset1 = offset + ?n" "pr1 = pr"
      by (auto simp: deliver_frame_def Let_def split: sum.splits)
    with False M(6) show ?thesis by (simp add: pending_def Let_def)
  qed
qed

lemma deliver_frame_defined:
  assumes "out_wf out offset" and "0 \<le> sint (size_f f)"
    and "sint (size_f f) \<le> int (length (msg f))" and "offset + sint (size_f f) \<le> BUFFER_SIZE"
    and "UTP_FLAG f END \<longrightarrow> offset + sint (size_f f) < BUFFER_SIZE"
  shows "\<exists>out1 pr1. deliver_frame f (out, offset, pr)
           = Inr (out1, if UTP_FLAG f END then 0 else offset + sint (size_f f), pr1)"
proof -
  let ?n = "sint (size_f f)"
  from assms(1) have len: "length out = nat BUFFER_SIZE" and off: "0 \<le> offset"
    by (simp_all add: out_wf_def)
  from assms len off obtain o2 where m: "memcpy out offset (msg f) ?n = Inr o2"
    by (auto simp: memcpy_def)
  note M = memcpy_Inr [OF m assms(1)]
  show ?thesis
  proof (cases "UTP_FLAG f END")
    case True
    with assms(5) have "offset + ?n < BUFFER_SIZE" by simp
    then have "nat BUFFER_SIZE - nat (offset + ?n) \<noteq> 0"
      using off assms(2) by simp
    then have "0 \<in> set (replicate (nat BUFFER_SIZE - nat (offset + ?n)) (0::byte))"
      by simp
    with M(7) have "0 \<in> set (drop (nat (offset + ?n)) o2)" by simp
    then have "0 \<in> set o2" by (rule in_set_dropD)
    with True m show ?thesis
      by (simp add: deliver_frame_def Let_def c_string_def)
  next
    case False
    with m show ?thesis by (simp add: deliver_frame_def Let_def)
  qed
qed

lemma contiguous_run_le_length: "contiguous_run b xs \<le> length xs"
  by (induction xs arbitrary: b) auto

lemma contiguous_run_full_last:
  "contiguous_run b xs = length xs \<Longrightarrow> xs \<noteq> [] \<Longrightarrow> seq (last xs) = b + int (length xs) - 1"
proof (induction xs arbitrary: b)
  case Nil
  then show ?case by simp
next
  case (Cons a xs)
  show ?case
  proof (cases "xs = []")
    case True
    with Cons.prems show ?thesis by (simp split: if_splits)
  next
    case False
    from Cons.prems have "seq a = b" and "contiguous_run (b + 1) xs = length xs"
      by (simp_all split: if_splits)
    with Cons.IH [of "b + 1"] False show ?thesis by simp
  qed
qed

lemma contiguous_run_snoc:
  "(contiguous_run b xs = length xs \<longrightarrow> seq x \<noteq> b + int (length xs))
     \<Longrightarrow> contiguous_run b (xs @ [x]) = contiguous_run b xs"
  by (induction xs arbitrary: b) auto

lemma slide_Cons_full:
  assumes "length (f # rest) = nat W"
  shows "slide W (f # rest) = rest @ [last (f # rest)]"
proof -
  have n: "nat (W - 1) = length rest" using assms by auto
  have "butlast (f # rest) @ [last (f # rest)] = f # rest"
    by (rule append_butlast_last_id) simp
  moreover have "length (butlast (f # rest)) = length rest" by simp
  ultimately have "drop (length rest) (f # rest) = [last (f # rest)]"
    by (metis append_eq_conv_conj)
  then show ?thesis by (simp add: slide_def n)
qed

lemma contiguous_run_slide_full:
  assumes "seq f = b" and "length (f # rest) = nat W"
  shows "contiguous_run (b + 1) (slide W (f # rest)) = contiguous_run (b + 1) rest"
proof -
  have "contiguous_run (b + 1) rest = length rest \<longrightarrow>
          seq (last (f # rest)) \<noteq> b + 1 + int (length rest)"
  proof (cases "rest = []")
    case True
    with assms(1) show ?thesis by simp
  next
    case False
    with contiguous_run_full_last [of "b + 1" rest] show ?thesis by auto
  qed
  then show ?thesis
    unfolding slide_Cons_full [OF assms(2)] by (rule contiguous_run_snoc)
qed

lemma take_run_slide_full:
  assumes "seq f = b" and "length (f # rest) = nat W"
  shows "take (contiguous_run (b + 1) (slide W (f # rest))) (slide W (f # rest))
           = take (contiguous_run (b + 1) rest) rest"
proof -
  define x where "x = last (f # rest)"
  have e: "slide W (f # rest) = rest @ [x]"
    unfolding x_def by (rule slide_Cons_full [OF assms(2)])
  have k: "contiguous_run (b + 1) (slide W (f # rest)) = contiguous_run (b + 1) rest"
    by (rule contiguous_run_slide_full [OF assms])
  have "take (contiguous_run (b + 1) rest) (rest @ [x]) = take (contiguous_run (b + 1) rest) rest"
    using contiguous_run_le_length [of "b + 1" rest] by simp
  then show ?thesis
    unfolding e k [unfolded e] .
qed

lemma processReceived_run:
  assumes "processReceived s = Inr s'" and "length (recv (buffer s)) = nat (wsize s)"
    and "1 \<le> wsize s" and "out_wf (output_buf s) (outPos s)"
  shows "recvNext (status s')
           = recvNext (status s) + int (contiguous_run (recvNext (status s)) (recv (buffer s)))
       \<and> (pending (output_buf s') (outPos s'), printed s')
           = deliver_spec (take (contiguous_run (recvNext (status s)) (recv (buffer s)))
                             (recv (buffer s)))
               (pending (output_buf s) (outPos s), printed s)
       \<and> recv (buffer s')
           = (slide (wsize s) ^^ contiguous_run (recvNext (status s)) (recv (buffer s)))
               (recv (buffer s))
       \<and> out_wf (output_buf s') (outPos s')"
  using assms
proof (induction s rule: processReceived.induct)
  case (1 s)
  from "1.prems"(2,3) obtain f rest where r: "recv (buffer s) = f # rest"
    by (cases "recv (buffer s)") auto
  show ?case
  proof (cases "seq f - recvNext (status s) = 0")
    case False
    with r "1.prems"(1) have "s' = s"
      by (subst (asm) processReceived.simps) simp
    with False r "1.prems"(4) show ?thesis by simp
  next
    case True
    then have sf: "seq f = recvNext (status s)" by simp
    from "1.prems"(1) r True obtain out1 offset1 pr1
      where d: "deliver_frame f (output_buf s, outPos s, printed s) = Inr (out1, offset1, pr1)"
      by (subst (asm) processReceived.simps) (auto split: sum.splits)
    let ?s1 = "s\<lparr>output_buf := out1, outPos := offset1, printed := pr1,
                   buffer := (buffer s)\<lparr>recv := slide (wsize s) (recv (buffer s))\<rparr>,
                   status := (status s)\<lparr>recvNext := recvNext (status s) + 1\<rparr>\<rparr>"
    from "1.prems"(1) r True d have p: "processReceived ?s1 = Inr s'"
      by (subst (asm) processReceived.simps) simp
    have len: "length (f # rest) = nat (wsize s)"
      using "1.prems"(2) r by simp
    have len1: "length (recv (buffer ?s1)) = nat (wsize ?s1)"
      using "1.prems"(2,3) by (simp add: slide_length)
    note D = deliver_frame_spec [OF d "1.prems"(4)]
    have wf1: "out_wf (output_buf ?s1) (outPos ?s1)"
      using D(1) by simp
    have w1: "1 \<le> wsize ?s1" using "1.prems"(3) by simp
    note IH = "1.IH" [OF r True d refl refl p len1 w1 wf1]
    let ?k1 = "contiguous_run (recvNext (status s) + 1) rest"
    have k: "contiguous_run (recvNext (status s)) (recv (buffer s)) = Suc ?k1"
      using r sf by simp
    have k1: "contiguous_run (recvNext (status ?s1)) (recv (buffer ?s1)) = ?k1"
      using contiguous_run_slide_full [OF sf len] r by simp
    have t1: "take (contiguous_run (recvNext (status ?s1)) (recv (buffer ?s1))) (recv (buffer ?s1))
                = take ?k1 rest"
      using take_run_slide_full [OF sf len] r by simp
    have c1: "recvNext (status s') = recvNext (status s) + int (Suc ?k1)"
      using IH unfolding k1 by simp
    have c2: "(pending (output_buf s') (outPos s'), printed s')
                = deliver_spec (f # take ?k1 rest) (pending (output_buf s) (outPos s), printed s)"
      using IH D(2) unfolding t1 by (simp add: Let_def split: if_splits)
    have c3: "recv (buffer s') = (slide (wsize s) ^^ Suc ?k1) (recv (buffer s))"
      using IH unfolding k1 by (simp add: funpow_swap1)
    have c4: "out_wf (output_buf s') (outPos s')"
      using IH by simp
    from c1 c2 c3 c4 show ?thesis
      unfolding k using r by simp
  qed
qed

lemma processReceived_defined:
  assumes "length (recv (buffer s)) = nat (wsize s)" and "1 \<le> wsize s"
    and "out_wf (output_buf s) (outPos s)"
    and "run_fits (outPos s)
           (take (contiguous_run (recvNext (status s)) (recv (buffer s))) (recv (buffer s)))"
  shows "\<exists>s'. processReceived s = Inr s'"
  using assms
proof (induction s rule: processReceived.induct)
  case (1 s)
  from "1.prems"(1,2) obtain f rest where r: "recv (buffer s) = f # rest"
    by (cases "recv (buffer s)") auto
  show ?case
  proof (cases "seq f - recvNext (status s) = 0")
    case False
    with r have "processReceived s = Inr s"
      by (subst processReceived.simps) simp
    then show ?thesis by blast
  next
    case True
    then have sf: "seq f = recvNext (status s)" by simp
    let ?k1 = "contiguous_run (recvNext (status s) + 1) rest"
    let ?n = "sint (size_f f)"
    let ?o1 = "if UTP_FLAG f END then 0 else outPos s + ?n"
    from "1.prems"(4) r sf have fit: "run_fits (outPos s) (f # take ?k1 rest)"
      by simp
    then have b: "0 \<le> ?n" "?n \<le> int (length (msg f))" "outPos s + ?n \<le> BUFFER_SIZE"
      "UTP_FLAG f END \<longrightarrow> outPos s + ?n < BUFFER_SIZE"
      and fit1: "run_fits ?o1 (take ?k1 rest)"
      by (simp_all add: Let_def)
    from deliver_frame_defined [OF "1.prems"(3) b, of "printed s"] obtain out1 pr1
      where d: "deliver_frame f (output_buf s, outPos s, printed s) = Inr (out1, ?o1, pr1)"
      by blast
    let ?s1 = "s\<lparr>output_buf := out1, outPos := ?o1, printed := pr1,
                   buffer := (buffer s)\<lparr>recv := slide (wsize s) (recv (buffer s))\<rparr>,
                   status := (status s)\<lparr>recvNext := recvNext (status s) + 1\<rparr>\<rparr>"
    have len: "length (f # rest) = nat (wsize s)"
      using "1.prems"(1) r by simp
    have len1: "length (recv (buffer ?s1)) = nat (wsize ?s1)"
      using "1.prems"(1,2) by (simp add: slide_length)
    have wf1: "out_wf (output_buf ?s1) (outPos ?s1)"
      using deliver_frame_spec(1) [OF d "1.prems"(3)] by simp
    have w1: "1 \<le> wsize ?s1" using "1.prems"(2) by simp
    have t1: "take (contiguous_run (recvNext (status ?s1)) (recv (buffer ?s1))) (recv (buffer ?s1))
                = take ?k1 rest"
      using take_run_slide_full [OF sf len] r by simp
    have f1: "run_fits (outPos ?s1)
                (take (contiguous_run (recvNext (status ?s1)) (recv (buffer ?s1)))
                   (recv (buffer ?s1)))"
      unfolding t1 using fit1 by simp
    from "1.IH" [OF r True d refl refl len1 w1 wf1 f1] obtain s' where
      "processReceived ?s1 = Inr s'" by blast
    moreover have "processReceived s = processReceived ?s1"
      using r True d by (subst processReceived.simps) simp
    ultimately show ?thesis by simp
  qed
qed

text \<open>
  Where the copies fit. For a receive window of \<open>wsize\<close> slots and a well-formed output
  buffer, a call of \<^verbatim>\<open>processReceived\<close> whose copies stay inside the frames and the output
  buffer (\<open>run_fits\<close>) returns, and a call that returns has delivered exactly the frames of
  the longest run of slots 0, 1, ... whose sequence numbers are \<open>recvNext\<close>,
  \<open>recvNext + 1\<close>, ..., in that order: the pending text and the lines flushed are those
  of \<open>deliver_spec\<close> over the run, \<open>recvNext\<close> has grown by the length of the run, and the
  window has slid once per frame.
\<close>

lemma processReceived_fitting_run:
  assumes "length (recv (buffer s)) = nat (wsize s)" and "1 \<le> wsize s"
    and "out_wf (output_buf s) (outPos s)"
  shows "(run_fits (outPos s)
            (take (contiguous_run (recvNext (status s)) (recv (buffer s))) (recv (buffer s)))
          \<longrightarrow> (\<exists>s'. processReceived s = Inr s'))
       \<and> (\<forall>s'. processReceived s = Inr s' \<longrightarrow>
             recvNext (status s')
               = recvNext (status s)
                 + int (contiguous_run (recvNext (status s)) (recv (buffer s)))
           \<and> (pending (output_buf s') (outPos s'), printed s')
               = deliver_spec
                   (take (contiguous_run (recvNext (status s)) (recv (buffer s)))
                      (recv (buffer s)))
                   (pending (output_buf s) (outPos s), printed s)
           \<and> recv (buffer s')
               = (slide (wsize s) ^^ contiguous_run (recvNext (status s)) (recv (buffer s)))
                   (recv (buffer s))
           \<and> out_wf (output_buf s') (outPos s'))"
  using processReceived_defined [OF assms] processReceived_run [OF _ assms] by blast

lemma ex_session_simps:
  "wsize (ex_session g o1) = UTP_WINDOW g"
  "recv (buffer (ex_session g o1)) = replicate (nat (UTP_WINDOW g)) (calloc_pack (nat (UTP_PAYLOAD g)))"
  "send (buffer (ex_session g o1)) = replicate (nat (UTP_WINDOW g)) (calloc_pack (nat (UTP_PAYLOAD g)))"
  "output_buf (ex_session g o1) = replicate (nat BUFFER_SIZE) 0"
  "outPos (ex_session g o1) = 0"
  "printed (ex_session g o1) = []"
  "status (ex_session g o1) = \<lparr>sendLast = 0, recvLast = 0, sendNext = 1000, recvNext = 2001\<rparr>"
  "env (ex_session g o1) = world0\<lparr>rx := o1\<rparr>"
  "params (ex_session g o1) = g"
  by (simp_all add: ex_session_def main_init_def Let_def UTP_GET_WINDOW_SIZE_def
      UTP_GET_PAYLOAD_SIZE_def ex_conn_def)

lemma processReceived_example:
  "\<exists>s'. processReceived ex_received = Inr s' \<and> recvNext (status s') = 2003
        \<and> printed s' = [[104, 105, 33]] \<and> pending (output_buf s') (outPos s') = []"
proof -
  have h1: "length (recv (buffer ex_received)) = nat (wsize ex_received)"
    by (simp add: ex_received_def ex_session_simps ex_params_def)
  have h2: "1 \<le> wsize ex_received"
    by (simp add: ex_received_def ex_session_simps ex_params_def)
  have h3: "out_wf (output_buf ex_received) (outPos ex_received)"
    by (simp add: ex_received_def ex_session_simps out_wf_def BUFFER_SIZE_def)
  have k: "take (contiguous_run (recvNext (status ex_received)) (recv (buffer ex_received)))
             (recv (buffer ex_received))
           = [data_pack 2001 MSG 2 [104, 105, 0, 0, 0, 0, 0, 0, 0],
              data_pack 2002 END 1 [33, 0, 0, 0, 0, 0, 0, 0, 0]]"
    and k2: "contiguous_run (recvNext (status ex_received)) (recv (buffer ex_received)) = 2"
    by (simp_all add: ex_received_def ex_session_simps data_pack_def calloc_pack_def)
  have fit: "run_fits (outPos ex_received)
               (take (contiguous_run (recvNext (status ex_received)) (recv (buffer ex_received)))
                  (recv (buffer ex_received)))"
    unfolding k
    by (simp add: ex_received_def ex_session_simps data_pack_def UTP_FLAG_def END_def MSG_def
        BUFFER_SIZE_def)
  have d: "deliver_spec [data_pack 2001 MSG 2 [104, 105, 0, 0, 0, 0, 0, 0, 0],
                         data_pack 2002 END 1 [33, 0, 0, 0, 0, 0, 0, 0, 0]]
             (pending (output_buf ex_received) (outPos ex_received), printed ex_received)
           = ([], [[104, 105, 33]])"
    by (simp add: ex_received_def ex_session_simps data_pack_def UTP_FLAG_def END_def MSG_def
        pending_def)
  have n: "recvNext (status ex_received) = 2001"
    by (simp add: ex_received_def ex_session_simps)
  from processReceived_fitting_run [OF h1 h2 h3] fit
  obtain s' where p: "processReceived ex_received = Inr s'"
    by blast
  with processReceived_fitting_run [OF h1 h2 h3]
  have R: "recvNext (status s')
             = recvNext (status ex_received)
               + int (contiguous_run (recvNext (status ex_received)) (recv (buffer ex_received)))
         \<and> (pending (output_buf s') (outPos s'), printed s')
             = deliver_spec
                 (take (contiguous_run (recvNext (status ex_received)) (recv (buffer ex_received)))
                    (recv (buffer ex_received)))
                 (pending (output_buf ex_received) (outPos ex_received), printed ex_received)"
    by blast
  note R' = R [unfolded k, unfolded k2, unfolded d, unfolded n]
  from R' have "recvNext (status s') = 2003"
    and "printed s' = [[104, 105, 33]]" and "pending (output_buf s') (outPos s') = []"
    by simp_all
  with p show ?thesis by blast
qed

lemma deliver_frame_fault:
  assumes "sint (size_f f) < 0 \<or> int (length out) < offset + sint (size_f f)"
  shows "deliver_frame f (out, offset, pr) = Inl OutOfBounds"
  using assms by (auto simp: deliver_frame_def memcpy_def Let_def)

text \<open>
  Claim C1 at its failing inputs. \<^verbatim>\<open>processReceived\<close> copies \<open>size\<close> bytes of the frame in
  slot 0 to the cursor of the output buffer without looking at \<open>size\<close> or at the room
  behind the cursor (main.c, line 248). When the frame in slot 0 carries the expected
  sequence number and its size field is negative, or larger than what is left of the
  output buffer, the copy leaves the output buffer and the call has no defined result.
  The second case is reached by frames that an unmodified sender packs: text typed while
  the window is full is sent in full frames without END, and the 33rd of them does not
  fit the 1024 bytes.
\<close>

theorem processReceived_copies_unchecked:
  assumes "recv (buffer s) = f # rest" and "seq f = recvNext (status s)"
    and "sint (size_f f) < 0 \<or> int (length (output_buf s)) < outPos s + sint (size_f f)"
  shows "processReceived s = Inl OutOfBounds"
  using assms(1,2) deliver_frame_fault [OF assms(3), of "printed s"]
  by (subst processReceived.simps) simp

theorem processReceived_copies_unchecked_witness:
  "processReceived ex_negative_size = Inl OutOfBounds
   \<and> processReceived ex_long_text = Inl OutOfBounds"
proof -
  have a1: "recv (buffer ex_negative_size)
              = data_pack 2001 MSG 65535 [104, 105, 0, 0, 0, 0, 0, 0, 0]
                # [calloc_pack 2, calloc_pack 2]"
    by (simp add: ex_negative_size_def)
  have a2: "seq (data_pack 2001 MSG 65535 [104, 105, 0, 0, 0, 0, 0, 0, 0])
              = recvNext (status ex_negative_size)"
    by (simp add: ex_negative_size_def ex_session_simps data_pack_def)
  have a3: "sint (size_f (data_pack 2001 MSG 65535 [104, 105, 0, 0, 0, 0, 0, 0, 0])) < 0
            \<or> int (length (output_buf ex_negative_size))
                < outPos ex_negative_size
                  + sint (size_f (data_pack 2001 MSG 65535 [104, 105, 0, 0, 0, 0, 0, 0, 0]))"
    by (simp add: data_pack_def)
  have b1: "recv (buffer ex_long_text)
              = data_pack 2033 MSG 32 (replicate 32 65 @ replicate 7 0)
                # replicate 15 (calloc_pack 32)"
    by (simp add: ex_long_text_def)
  have b2: "seq (data_pack 2033 MSG 32 (replicate 32 65 @ replicate 7 0))
              = recvNext (status ex_long_text)"
    by (simp add: ex_long_text_def data_pack_def)
  have b3: "sint (size_f (data_pack 2033 MSG 32 (replicate 32 65 @ replicate 7 0))) < 0
            \<or> int (length (output_buf ex_long_text))
                < outPos ex_long_text
                  + sint (size_f (data_pack 2033 MSG 32 (replicate 32 65 @ replicate 7 0)))"
    by (simp add: ex_long_text_def data_pack_def)
  from processReceived_copies_unchecked [OF a1 a2 a3]
    processReceived_copies_unchecked [OF b1 b2 b3]
  show ?thesis by simp
qed

section \<open>Properties of the event handler\<close>

lemma UTP_RECV_verified:
  assumes "rx w = Datagram d # r" and "md5 d = H (d\<lparr>md5 := 0\<rparr>)"
  shows "UTP_RECV H f w = (1, d, w\<lparr>rx := r\<rparr>)"
proof -
  have "d\<lparr>md5 := H (d\<lparr>md5 := 0\<rparr>)\<rparr> = d"
    using assms(2) [symmetric] by simp
  then show ?thesis
    using assms
    by (simp add: UTP_RECV_def UTP_MD5_VERIFY_def UTP_MD5_ADD_def UTP_MD5_PREPARE_def Let_def)
qed

lemma eventHandler_NAK:
  assumes "rx (env s) = Datagram d # r" and "md5 d = H (d\<lparr>md5 := 0\<rparr>)"
    and "UTP_TYPE (flags d) = NAK"
  shows "eventHandler H s = case_NAK H (s\<lparr>frame := d, env := (env s)\<lparr>rx := r\<rparr>\<rparr>)"
  using assms(3) by (simp add: eventHandler_def UTP_RECV_verified [where H = H, OF assms(1,2)])

lemma eventHandler_MSG:
  assumes "rx (env s) = Datagram d # r" and "md5 d = H (d\<lparr>md5 := 0\<rparr>)"
    and "UTP_TYPE (flags d) = MSG"
  shows "eventHandler H s = case_MSG H (s\<lparr>frame := d, env := (env s)\<lparr>rx := r\<rparr>\<rparr>)"
  using assms(3) by (simp add: eventHandler_def UTP_RECV_verified [where H = H, OF assms(1,2)] NAK_def MSG_def)

text \<open>
  Claim C7 at its failing inputs. A verified NAK makes the event handler re-send, without
  any window check, the frame at the address \<^verbatim>\<open>getFrame(seq - sendNext, buffer.send)\<close>,
  which is slot \<open>48 * (seq - sendNext)\<close>: the read is outside the send window whenever
  \<open>seq - sendNext\<close> is negative or \<open>48 * (seq - sendNext)\<close> is not below the number of
  slots, and otherwise it re-sends the frame of that slot.
\<close>

theorem nak_resend_reads_slot_48_times_index:
  assumes "rx (env s) = Datagram d # r" and "md5 d = H (d\<lparr>md5 := 0\<rparr>)"
    and "UTP_TYPE (flags d) = NAK"
  shows "(seq d - sendNext (status s) < 0
            \<or> int (length (send (buffer s))) \<le> (seq d - sendNext (status s)) * 48
          \<longrightarrow> eventHandler H s = Inl OutOfBounds)
       \<and> (0 \<le> seq d - sendNext (status s)
            \<and> (seq d - sendNext (status s)) * 48 < int (length (send (buffer s)))
          \<longrightarrow> (\<exists>s'. eventHandler H s = Inr s'
                 \<and> wire (env s') = wire (env s)
                     @ [UTP_MD5_ADD H ((send (buffer s) ! nat ((seq d - sendNext (status s)) * 48))
                          \<lparr>time := clock (env s)\<rparr>)]))"
proof -
  let ?i = "seq d - sendNext (status s)"
  have a: "?i < 0 \<or> int (length (send (buffer s))) \<le> ?i * 48
             \<Longrightarrow> eventHandler H s = Inl OutOfBounds"
    unfolding eventHandler_NAK [where H = H, OF assms]
    by (auto simp: case_NAK_def getFrame_def SIZEOF_utp_pack_def Let_def)
  have b: "0 \<le> ?i \<and> ?i * 48 < int (length (send (buffer s)))
             \<Longrightarrow> (\<exists>s'. eventHandler H s = Inr s'
                 \<and> wire (env s') = wire (env s)
                     @ [UTP_MD5_ADD H ((send (buffer s) ! nat (?i * 48))\<lparr>time := clock (env s)\<rparr>)])"
    unfolding eventHandler_NAK [where H = H, OF assms]
    by (simp add: case_NAK_def getFrame_def SIZEOF_utp_pack_def Let_def UTP_SEND_def UTP_TIME_def
        split: prod.splits)
  from a b show ?thesis by blast
qed

theorem nak_resend_reads_slot_48_times_index_witness:
  "eventHandler (\<lambda>_. 0)
     (ex_session default_params [Datagram (data_pack 1001 (NAK OR REQ) 0 (replicate 39 0))])
   = Inl OutOfBounds"
proof -
  let ?d = "data_pack 1001 (NAK OR REQ) 0 (replicate 39 0)"
  let ?s = "ex_session default_params [Datagram ?d]"
  have h1: "rx (env ?s) = Datagram ?d # []"
    by (simp add: ex_session_simps)
  have h2: "md5 ?d = (\<lambda>_. 0) (?d\<lparr>md5 := 0\<rparr>)"
    by (simp add: data_pack_def)
  have h3: "UTP_TYPE (flags ?d) = NAK"
    by (simp add: data_pack_def UTP_TYPE_def NAK_def REQ_def)
  have "int (length (send (buffer ?s))) \<le> (seq ?d - sendNext (status ?s)) * 48"
    by (simp add: ex_session_simps data_pack_def default_params_def)
  with nak_resend_reads_slot_48_times_index [where H = "\<lambda>_. 0", OF h1 h2 h3]
  show ?thesis by blast
qed

lemma processReceived_keeps:
  "processReceived s = Inr s' \<Longrightarrow>
     frame s' = frame s \<and> env s' = env s \<and> params s' = params s \<and> wsize s' = wsize s
     \<and> psize s' = psize s \<and> conn s' = conn s \<and> send (buffer s') = send (buffer s)
     \<and> acks (buffer s') = acks (buffer s)
     \<and> recvLast (status s') = recvLast (status s) \<and> sendLast (status s') = sendLast (status s)
     \<and> sendNext (status s') = sendNext (status s) \<and> frameCount s' = frameCount s
     \<and> running s' = running s \<and> recvNext (status s) \<le> recvNext (status s')"
proof (induction s rule: processReceived.induct)
  case (1 s)
  from "1.prems" obtain f rest where r: "recv (buffer s) = f # rest"
    by (subst (asm) processReceived.simps) (auto split: list.splits)
  show ?case
  proof (cases "seq f - recvNext (status s) = 0")
    case False
    with r "1.prems" have "s' = s"
      by (subst (asm) processReceived.simps) simp
    then show ?thesis by simp
  next
    case True
    from "1.prems" r True obtain out1 offset1 pr1
      where d: "deliver_frame f (output_buf s, outPos s, printed s) = Inr (out1, offset1, pr1)"
      by (subst (asm) processReceived.simps) (auto split: sum.splits)
    let ?s1 = "s\<lparr>output_buf := out1, outPos := offset1, printed := pr1,
                   buffer := (buffer s)\<lparr>recv := slide (wsize s) (recv (buffer s))\<rparr>,
                   status := (status s)\<lparr>recvNext := recvNext (status s) + 1\<rparr>\<rparr>"
    from "1.prems" r True d have p: "processReceived ?s1 = Inr s'"
      by (subst (asm) processReceived.simps) simp
    from "1.IH" [OF r True d refl refl p] show ?thesis by simp
  qed
qed

lemma case_MSG_wire:
  assumes "case_MSG H s = Inr s'"
  shows "wire (env s') = wire (env s) @ [ack_for H s (frame s)]"
proof (cases "sequenceInSpan (wsize s) (seq (frame s)) (recvNext (status s))")
  case False
  with assms show ?thesis
    by (auto simp: case_MSG_def ack_for_def UTP_SEND_def UTP_TIME_def Let_def split: prod.splits)
next
  case True
  with assms obtain recv1 s1 where
    ins: "insert_frame (recv (buffer s)) (frame s) (seq (frame s)) (recvNext (status s)) = Inr recv1"
    and p: "processReceived
         (s\<lparr>buffer := (buffer s)\<lparr>recv := recv1\<rparr>,
            status := (if seq (frame s) > recvLast (status s)
                       then (status s)\<lparr>recvLast := seq (frame s)\<rparr> else status s)\<rparr>) = Inr s1"
    by (auto simp: case_MSG_def split: sum.splits)
  from processReceived_keeps [OF p]
  have k: "frame s1 = frame s" "env s1 = env s" "params s1 = params s"
    by simp_all
  from assms True ins p have "s' = (let frame1 = UTP_PACK_PROPERTIES (UTP_PAYLOAD (params s1)) (frame s1) 0
                          (seq (frame s1)) ACK;
               (frame2, env1) = UTP_SEND H frame1 (env s1)
           in s1\<lparr>frame := frame2, env := env1\<rparr>)"
    by (simp add: case_MSG_def UTP_SEND_def Let_def)
  then show ?thesis
    unfolding k
    by (simp add: ack_for_def UTP_SEND_def UTP_TIME_def Let_def split: prod.splits)
qed

text \<open>
  What the MSG branch does when it returns. A received MSG frame whose checksum verifies
  makes a pass of the event handler that returns send exactly one frame, the ACK with
  the sequence number of the MSG. Outside the window the pass always returns and nothing
  else changes: no insert, no delivery, the tracker as it was. Inside the window the pass
  returns whenever the copies of the delivery fit.
\<close>

lemma eventHandler_MSG_ack:
  assumes "rx (env s) = Datagram d # r" and "md5 d = H (d\<lparr>md5 := 0\<rparr>)"
    and "UTP_TYPE (flags d) = MSG"
  shows "(\<forall>s'. eventHandler H s = Inr s' \<longrightarrow>
            wire (env s') = wire (env s) @ [ack_for H s d])
       \<and> flags (ack_for H s d) = ACK \<and> seq (ack_for H s d) = seq d
       \<and> (\<not> sequenceInSpan (wsize s) (seq d) (recvNext (status s)) \<longrightarrow>
            eventHandler H s
              = Inr (s\<lparr>frame := ack_for H s d,
                       env := (env s)\<lparr>rx := r, wire := wire (env s) @ [ack_for H s d]\<rparr>\<rparr>))
       \<and> (sequenceInSpan (wsize s) (seq d) (recvNext (status s))
            \<and> length (recv (buffer s)) = nat (wsize s)
            \<and> out_wf (output_buf s) (outPos s)
            \<and> run_fits (outPos s)
                 (take (contiguous_run (recvNext (status s))
                          ((recv (buffer s))[nat (seq d - recvNext (status s)) := d]))
                    ((recv (buffer s))[nat (seq d - recvNext (status s)) := d]))
          \<longrightarrow> (\<exists>s'. eventHandler H s = Inr s'))"
proof -
  let ?s0 = "s\<lparr>frame := d, env := (env s)\<lparr>rx := r\<rparr>\<rparr>"
  have e: "eventHandler H s = case_MSG H ?s0"
    by (rule eventHandler_MSG [where H = H, OF assms])
  have a: "\<forall>s'. eventHandler H s = Inr s' \<longrightarrow> wire (env s') = wire (env s) @ [ack_for H s d]"
  proof (intro allI impI)
    fix s' assume "eventHandler H s = Inr s'"
    then have "case_MSG H ?s0 = Inr s'" using e by simp
    from case_MSG_wire [OF this] show "wire (env s') = wire (env s) @ [ack_for H s d]"
      by (simp add: ack_for_def)
  qed
  have b: "flags (ack_for H s d) = ACK" "seq (ack_for H s d) = seq d"
    by (simp_all add: ack_for_def UTP_MD5_ADD_def UTP_PACK_PROPERTIES_def Let_def)
  have c: "\<not> sequenceInSpan (wsize s) (seq d) (recvNext (status s)) \<longrightarrow>
            eventHandler H s
              = Inr (s\<lparr>frame := ack_for H s d,
                       env := (env s)\<lparr>rx := r, wire := wire (env s) @ [ack_for H s d]\<rparr>\<rparr>)"
    unfolding e
    by (simp add: case_MSG_def ack_for_def UTP_SEND_def UTP_TIME_def Let_def)
  have d: "sequenceInSpan (wsize s) (seq d) (recvNext (status s))
            \<and> length (recv (buffer s)) = nat (wsize s)
            \<and> out_wf (output_buf s) (outPos s)
            \<and> run_fits (outPos s)
                 (take (contiguous_run (recvNext (status s))
                          ((recv (buffer s))[nat (seq d - recvNext (status s)) := d]))
                    ((recv (buffer s))[nat (seq d - recvNext (status s)) := d]))
          \<longrightarrow> (\<exists>s'. eventHandler H s = Inr s')"
  proof (intro impI, elim conjE)
    let ?recv1 = "(recv (buffer s))[nat (seq d - recvNext (status s)) := d]"
    let ?s1 = "?s0\<lparr>buffer := (buffer ?s0)\<lparr>recv := ?recv1\<rparr>,
                    status := (if seq (frame ?s0) > recvLast (status ?s0)
                       then (status ?s0)\<lparr>recvLast := seq (frame ?s0)\<rparr> else status ?s0)\<rparr>"
    assume span: "sequenceInSpan (wsize s) (seq d) (recvNext (status s))"
      and len: "length (recv (buffer s)) = nat (wsize s)"
      and wf: "out_wf (output_buf s) (outPos s)"
      and fit: "run_fits (outPos s) (take (contiguous_run (recvNext (status s)) ?recv1) ?recv1)"
    from span have w: "1 \<le> wsize s" and idx: "0 \<le> seq d - recvNext (status s)"
      "seq d - recvNext (status s) < wsize s"
      by (simp_all add: sequenceInSpan_def Let_def)
    have ins: "insert_frame (recv (buffer ?s0)) (frame ?s0) (seq (frame ?s0)) (recvNext (status ?s0))
                 = Inr ?recv1"
      using idx len by (simp add: insert_frame_def Let_def)
    have "\<exists>s'. processReceived ?s1 = Inr s'"
      by (rule processReceived_defined) (use len w wf fit in simp_all)
    then obtain s2 where p: "processReceived ?s1 = Inr s2" by blast
    have "\<exists>s'. case_MSG H ?s0 = Inr s'"
      using span ins p
      by (simp add: case_MSG_def Let_def split: prod.splits)
    then show "\<exists>s'. eventHandler H s = Inr s'" using e by simp
  qed
  from a b c d show ?thesis by blast
qed

text \<open>
  Claim C4 at a failing input. For a MSG inside the window the event handler runs
  \<^verbatim>\<open>processReceived\<close> (main.c, line 306) before it packs and sends the ACK (lines 309 and
  310). A verified MSG that carries the next expected sequence number and a size field
  that is negative, or larger than what is left of the output buffer, makes the copy of
  \<^verbatim>\<open>processReceived\<close> leave the output buffer: the pass has no defined result and has
  sent no ACK when it gets there.
\<close>

theorem msg_copy_comes_before_ack:
  assumes "rx (env s) = Datagram d # r" and "md5 d = H (d\<lparr>md5 := 0\<rparr>)"
    and "UTP_TYPE (flags d) = MSG"
    and "seq d = recvNext (status s)" and "1 \<le> wsize s" and "recv (buffer s) \<noteq> []"
    and "sint (size_f d) < 0 \<or> int (length (output_buf s)) < outPos s + sint (size_f d)"
  shows "eventHandler H s = Inl OutOfBounds"
proof -
  let ?s0 = "s\<lparr>frame := d, env := (env s)\<lparr>rx := r\<rparr>\<rparr>"
  from assms(6) obtain x xs where r: "recv (buffer s) = x # xs"
    by (cases "recv (buffer s)") auto
  let ?s1 = "?s0\<lparr>buffer := (buffer ?s0)\<lparr>recv := d # xs\<rparr>,
                  status := (if seq (frame ?s0) > recvLast (status ?s0)
                     then (status ?s0)\<lparr>recvLast := seq (frame ?s0)\<rparr> else status ?s0)\<rparr>"
  have e: "eventHandler H s = case_MSG H ?s0"
    by (rule eventHandler_MSG [where H = H, OF assms(1-3)])
  have span: "sequenceInSpan (wsize ?s0) (seq (frame ?s0)) (recvNext (status ?s0))"
    using assms(4,5) by (simp add: sequenceInSpan_def)
  have ins: "insert_frame (recv (buffer ?s0)) (frame ?s0) (seq (frame ?s0)) (recvNext (status ?s0))
               = Inr (d # xs)"
    using assms(4) r by (simp add: insert_frame_def)
  have "deliver_frame d (output_buf ?s1, outPos ?s1, printed ?s1) = Inl OutOfBounds"
    by (rule deliver_frame_fault) (use assms(7) in simp)
  then have p: "processReceived ?s1 = Inl OutOfBounds"
    using assms(4) by (subst processReceived.simps) simp
  show ?thesis
    unfolding e using span ins p by (simp add: case_MSG_def)
qed

theorem msg_copy_comes_before_ack_witness:
  "eventHandler (\<lambda>_. 0)
     (ex_session ex_params
        [Datagram (data_pack 2001 MSG 65535 [104, 105, 0, 0, 0, 0, 0, 0, 0])])
   = Inl OutOfBounds"
proof -
  let ?d = "data_pack 2001 MSG 65535 [104, 105, 0, 0, 0, 0, 0, 0, 0]"
  let ?s = "ex_session ex_params [Datagram ?d]"
  have h1: "rx (env ?s) = Datagram ?d # []"
    by (simp add: ex_session_simps)
  have h2: "md5 ?d = (\<lambda>_. 0) (?d\<lparr>md5 := 0\<rparr>)"
    by (simp add: data_pack_def)
  have h3: "UTP_TYPE (flags ?d) = MSG"
    by (simp add: data_pack_def UTP_TYPE_def MSG_def)
  have h4: "seq ?d = recvNext (status ?s)"
    by (simp add: ex_session_simps data_pack_def)
  have h5: "1 \<le> wsize ?s"
    by (simp add: ex_session_simps ex_params_def)
  have h6: "recv (buffer ?s) \<noteq> []"
    by (simp add: ex_session_simps ex_params_def)
  have h7: "sint (size_f ?d) < 0
            \<or> int (length (output_buf ?s)) < outPos ?s + sint (size_f ?d)"
    by (simp add: data_pack_def)
  from msg_copy_comes_before_ack [where H = "\<lambda>_. 0", OF h1 h2 h3 h4 h5 h6 h7]
  show ?thesis .
qed

section \<open>Properties of the tracker\<close>

































end
